theory Spec2Isabelle
  imports Complex_Main "HOL-Library.Multiset" "HOL-Library.Sublist"
begin

section \<open>JavaScript numbers\<close>

text \<open>
  The charts of \<^verbatim>\<open>static/js/charts.js\<close> compute with JavaScript numbers.  A number is
  modelled as a finite real or one of the three special values of IEEE-754.  Finite
  arithmetic is exact (rounding and overflow are not modelled, the specification
  speaks of real numbers), and zero carries no sign: a zero divisor is read as \<open>+0\<close>,
  which is what \<open>x - x\<close> yields.  No arithmetic operator of the language throws.
\<close>

datatype jsnum = Fin real | PInf | NInf | NaN

instantiation jsnum :: "{minus, times, divide}"
begin

fun minus_jsnum :: "jsnum \<Rightarrow> jsnum \<Rightarrow> jsnum" where
  "minus_jsnum NaN _ = NaN"
| "minus_jsnum _ NaN = NaN"
| "minus_jsnum (Fin a) (Fin b) = Fin (a - b)"
| "minus_jsnum (Fin a) PInf = NInf"
| "minus_jsnum (Fin a) NInf = PInf"
| "minus_jsnum PInf (Fin b) = PInf"
| "minus_jsnum PInf NInf = PInf"
| "minus_jsnum PInf PInf = NaN"
| "minus_jsnum NInf (Fin b) = NInf"
| "minus_jsnum NInf PInf = NInf"
| "minus_jsnum NInf NInf = NaN"

fun times_jsnum :: "jsnum \<Rightarrow> jsnum \<Rightarrow> jsnum" where
  "times_jsnum NaN _ = NaN"
| "times_jsnum _ NaN = NaN"
| "times_jsnum (Fin a) (Fin b) = Fin (a * b)"
| "times_jsnum (Fin a) PInf = (if 0 < a then PInf else if a < 0 then NInf else NaN)"
| "times_jsnum (Fin a) NInf = (if 0 < a then NInf else if a < 0 then PInf else NaN)"
| "times_jsnum PInf (Fin b) = (if 0 < b then PInf else if b < 0 then NInf else NaN)"
| "times_jsnum NInf (Fin b) = (if 0 < b then NInf else if b < 0 then PInf else NaN)"
| "times_jsnum PInf PInf = PInf"
| "times_jsnum PInf NInf = NInf"
| "times_jsnum NInf PInf = NInf"
| "times_jsnum NInf NInf = PInf"

fun divide_jsnum :: "jsnum \<Rightarrow> jsnum \<Rightarrow> jsnum" where
  "divide_jsnum NaN _ = NaN"
| "divide_jsnum _ NaN = NaN"
| "divide_jsnum (Fin a) (Fin b) =
     (if b \<noteq> 0 then Fin (a / b)
      else if 0 < a then PInf else if a < 0 then NInf else NaN)"
| "divide_jsnum (Fin a) PInf = Fin 0"
| "divide_jsnum (Fin a) NInf = Fin 0"
| "divide_jsnum PInf (Fin b) = (if 0 \<le> b then PInf else NInf)"
| "divide_jsnum NInf (Fin b) = (if 0 \<le> b then NInf else PInf)"
| "divide_jsnum PInf PInf = NaN"
| "divide_jsnum PInf NInf = NaN"
| "divide_jsnum NInf PInf = NaN"
| "divide_jsnum NInf NInf = NaN"

instance ..

end

instantiation jsnum :: inverse
begin

definition inverse_jsnum :: "jsnum \<Rightarrow> jsnum" where
  "inverse_jsnum x = divide (Fin 1) x"

instance ..

end

text \<open>The comparisons \<^verbatim>\<open><\<close> and \<^verbatim>\<open><=\<close> of the language: false whenever an operand is \<open>NaN\<close>.\<close>

fun num_less :: "jsnum \<Rightarrow> jsnum \<Rightarrow> bool" where
  "num_less NaN _ = False"
| "num_less _ NaN = False"
| "num_less (Fin a) (Fin b) = (a < b)"
| "num_less (Fin a) PInf = True"
| "num_less (Fin a) NInf = False"
| "num_less PInf _ = False"
| "num_less NInf NInf = False"
| "num_less NInf _ = True"

fun num_le :: "jsnum \<Rightarrow> jsnum \<Rightarrow> bool" where
  "num_le NaN _ = False"
| "num_le _ NaN = False"
| "num_le (Fin a) (Fin b) = (a \<le> b)"
| "num_le (Fin a) PInf = True"
| "num_le (Fin a) NInf = False"
| "num_le PInf PInf = True"
| "num_le PInf _ = False"
| "num_le NInf _ = True"

section \<open>Normalisation of a value into a percentage\<close>

text \<open>
  \<^verbatim>\<open>const normalize = (value, min, max) => { return ((value - min) / (max - min)) * 100; };\<close>
\<close>

definition normalize :: "jsnum \<Rightarrow> jsnum \<Rightarrow> jsnum \<Rightarrow> jsnum" where
  "normalize value min_v max_v = ((value - min_v) / (max_v - min_v)) * Fin 100"

section \<open>Rounding to doubles\<close>

text \<open>
  The operators above give exact results.  The operators of the language compute on
  doubles (IEEE-754 binary64): each returns the exact result rounded to the nearest
  double, a tie going to the double whose last bit is even, and a result beyond the
  largest double becomes an infinity.

  \<open>round_half_even\<close> rounds a real to the nearest integer, ties to even.  \<open>round_pos\<close>
  rounds a real that is not negative with an exponent that has no upper bound: below
  \<open>2 / 2 ^ 1022\<close> (the subnormal numbers and the first binade of the normal ones) doubles
  are the multiples of \<open>1 / 2 ^ 1074\<close>, and from there on the doubles of a binade are twice
  those of the binade below.  \<open>round_double\<close> adds the sign and the overflow: the largest
  double is \<open>2 ^ 1024 - 2 ^ 971\<close>, and what rounds to \<open>2 ^ 1024\<close> or more is infinite.

  Zero carries no sign here either: the comparisons of the language do not tell \<open>-0\<close>
  from \<open>0\<close>, and where the functions below are used on a domain \<open>lo < hi\<close> no divisor is
  zero.
\<close>

definition round_half_even :: "real \<Rightarrow> int" where
  "round_half_even q =
     (let f = \<lfloor>q\<rfloor>; d = q - of_int f
      in if d < 1 / 2 then f else if 1 / 2 < d then f + 1 else if even f then f else f + 1)"

function round_pos :: "real \<Rightarrow> real" where
  "round_pos x =
     (if x < 2 / 2 ^ 1022 then of_int (round_half_even (x * 2 ^ 1074)) / 2 ^ 1074
      else 2 * round_pos (x / 2))"
  by pat_completeness auto
termination
proof (relation "measure (\<lambda>x. nat \<lfloor>x * 2 ^ 1021\<rfloor>)")
  show "wf (measure (\<lambda>x. nat \<lfloor>x * 2 ^ 1021\<rfloor>))" by simp
next
  fix x :: real
  assume a: "\<not> x < 2 / 2 ^ 1022"
  define y where "y = x * 2 ^ 1021"
  have "(2::real) / 2 ^ 1022 = 1 / 2 ^ 1021" by simp
  with a have "1 / 2 ^ 1021 \<le> x" by simp
  then have y1: "1 \<le> y" by (simp add: y_def field_simps)
  then have "1 \<le> \<lfloor>y\<rfloor>" by simp
  moreover have "\<lfloor>y / 2\<rfloor> < \<lfloor>y\<rfloor>"
  proof -
    have "y / 2 < of_int \<lfloor>y\<rfloor>"
      using y1 \<open>1 \<le> \<lfloor>y\<rfloor>\<close> by linarith
    then show ?thesis by (simp add: floor_less_iff)
  qed
  ultimately have "nat \<lfloor>y / 2\<rfloor> < nat \<lfloor>y\<rfloor>" by simp
  moreover have "x / 2 * 2 ^ 1021 = y / 2" by (simp add: y_def)
  ultimately show "(x / 2, x) \<in> measure (\<lambda>x. nat \<lfloor>x * 2 ^ 1021\<rfloor>)"
    by (simp add: y_def)
qed

declare round_pos.simps [simp del]

definition round_double :: "real \<Rightarrow> jsnum" where
  "round_double x =
     (let r = round_pos \<bar>x\<bar>
      in if 2 ^ 1024 \<le> r then (if 0 < x then PInf else NInf)
         else Fin (if x < 0 then - r else r))"

text \<open>A real is a double when rounding leaves it as it is.\<close>

definition is_double :: "real \<Rightarrow> bool" where
  "is_double x \<longleftrightarrow> round_double x = Fin x"

fun rounded :: "jsnum \<Rightarrow> jsnum" where
  "rounded (Fin x) = round_double x"
| "rounded PInf = PInf"
| "rounded NInf = NInf"
| "rounded NaN = NaN"

text \<open>The operators \<^verbatim>\<open>-\<close>, \<^verbatim>\<open>*\<close> and \<^verbatim>\<open>/\<close> of the language: the exact result, rounded.\<close>

definition js_minus :: "jsnum \<Rightarrow> jsnum \<Rightarrow> jsnum" where
  "js_minus a b = rounded (a - b)"

definition js_times :: "jsnum \<Rightarrow> jsnum \<Rightarrow> jsnum" where
  "js_times a b = rounded (a * b)"

definition js_divide :: "jsnum \<Rightarrow> jsnum \<Rightarrow> jsnum" where
  "js_divide a b = rounded (a / b)"

text \<open>
  \<^verbatim>\<open>const normalize = (value, min, max) => { return ((value - min) / (max - min)) * 100; };\<close>
  with the operators of the language: what lines 86 to 88 compute on doubles.
\<close>

definition normalize64 :: "jsnum \<Rightarrow> jsnum \<Rightarrow> jsnum \<Rightarrow> jsnum" where
  "normalize64 value min_v max_v =
     js_times (js_divide (js_minus value min_v) (js_minus max_v min_v)) (Fin 100)"

section \<open>Strings and arrays\<close>

text \<open>
  Strings are lists of characters.  \<^verbatim>\<open>toUpperCase\<close> is modelled on ASCII: the letters
  \<open>a\<close> to \<open>z\<close> move to \<open>A\<close> to \<open>Z\<close>, every other character stays.
\<close>

definition toUpperCase_char :: "char \<Rightarrow> char" where
  "toUpperCase_char c =
     (let code = (of_char c :: nat)
      in if 97 \<le> code \<and> code \<le> 122 then char_of (code - 32) else c)"

definition toUpperCase :: "string \<Rightarrow> string" where
  "toUpperCase str = map toUpperCase_char str"

text \<open>\<^verbatim>\<open>str.charAt(i)\<close> is the one-character string at \<open>i\<close>, or the empty string out of range.\<close>

definition charAt :: "string \<Rightarrow> nat \<Rightarrow> string" where
  "charAt str i = (if i < length str then [str ! i] else [])"

text \<open>
  \<^verbatim>\<open>xs.slice(start, end)\<close> and \<^verbatim>\<open>xs.slice(start)\<close> for the non-negative indices the source
  uses; both stop at the end of the array.
\<close>

definition slice :: "'a list \<Rightarrow> nat \<Rightarrow> nat \<Rightarrow> 'a list" where
  "slice xs start end_i = take (end_i - start) (drop start xs)"

definition slice_from :: "'a list \<Rightarrow> nat \<Rightarrow> 'a list" where
  "slice_from xs start = drop start xs"

text \<open>\<^verbatim>\<open>str.split(sep)\<close> for a separator of one character: the empty string gives one empty word.\<close>

fun split_str :: "string \<Rightarrow> char \<Rightarrow> string list" where
  "split_str [] sep = [[]]"
| "split_str (c # cs) sep =
     (if c = sep then [] # split_str cs sep
      else (case split_str cs sep of
              [] \<Rightarrow> [[c]]
            | w # ws \<Rightarrow> (c # w) # ws))"

fun join_str :: "string list \<Rightarrow> string \<Rightarrow> string" where
  "join_str [] sep = []"
| "join_str [w] sep = w"
| "join_str (w # ws) sep = w @ sep @ join_str ws sep"

text \<open>
  \<^verbatim>\<open>function capitalizeFirstLetter(string) {
    return string.split(' ').map(word => word.charAt(0).toUpperCase() + word.slice(1)).join(' '); }\<close>
\<close>

definition capitalizeFirstLetter :: "string \<Rightarrow> string" where
  "capitalizeFirstLetter str =
     join_str (map (\<lambda>word. toUpperCase (charAt word 0) @ slice_from word 1)
                   (split_str str CHR '' '')) '' ''"

text \<open>
  \<^verbatim>\<open>xs.sort(cmp)\<close>: the sort of the language is stable, and \<open>a\<close> stays before \<open>b\<close> unless
  \<open>cmp(a, b) > 0\<close> (a comparator result of \<open>NaN\<close> counts as \<open>0\<close>).  Every stable sort
  gives the same array for a consistent comparator; insertion from the right is the
  one written here.
\<close>

fun insert_cmp :: "('a \<Rightarrow> 'a \<Rightarrow> jsnum) \<Rightarrow> 'a \<Rightarrow> 'a list \<Rightarrow> 'a list" where
  "insert_cmp cmp x [] = [x]"
| "insert_cmp cmp x (y # ys) =
     (if num_less (Fin 0) (cmp x y) then y # insert_cmp cmp x ys else x # y # ys)"

fun array_sort :: "('a \<Rightarrow> 'a \<Rightarrow> jsnum) \<Rightarrow> 'a list \<Rightarrow> 'a list" where
  "array_sort cmp [] = []"
| "array_sort cmp (x # xs) = insert_cmp cmp x (array_sort cmp xs)"

text \<open>
  An object with string keys is the list of its entries in the order \<^verbatim>\<open>Object.keys\<close> and
  \<^verbatim>\<open>Object.values\<close> enumerate them, which for labels that are not array indices is the
  order of insertion.
\<close>

type_synonym 'v object = "(string \<times> 'v) list"

definition Object_keys :: "'v object \<Rightarrow> string list" where
  "Object_keys obj = map fst obj"

definition Object_values :: "'v object \<Rightarrow> 'v list" where
  "Object_values obj = map snd obj"

text \<open>An object holds each key once; a list of entries that repeats a key is not one.\<close>

definition is_object :: "'v object \<Rightarrow> bool" where
  "is_object obj = distinct (map fst obj)"

section \<open>The confidence chart: the best five crops\<close>

record item =
  crop :: string
  score :: jsnum

text \<open>
  Lines 6 to 11 of \<^verbatim>\<open>createConfidenceChart\<close>: labels are capitalised, paired with the
  scores by index, and the pairs sorted by \<^verbatim>\<open>(a, b) => b.score - a.score\<close>.
\<close>

definition combinedData :: "jsnum object \<Rightarrow> item list" where
  "combinedData confidenceScores =
     (let crops = map capitalizeFirstLetter (Object_keys confidenceScores);
          scores = Object_values confidenceScores
      in array_sort (\<lambda>a b. score b - score a)
           (map (\<lambda>(i, c). \<lparr>crop = c, score = scores ! i\<rparr>) (enumerate 0 crops)))"

text \<open>
  \<^verbatim>\<open>combinedData.slice(0, 5)\<close>: the source fixes the bound at five; \<open>topK\<close> takes it as
  an argument, and the two arrays handed to the chart are its instance at five.
\<close>

definition topK :: "jsnum object \<Rightarrow> nat \<Rightarrow> item list" where
  "topK confidenceScores k = slice (combinedData confidenceScores) 0 k"

definition top5Crops :: "jsnum object \<Rightarrow> string list" where
  "top5Crops confidenceScores = map crop (topK confidenceScores 5)"

definition top5Scores :: "jsnum object \<Rightarrow> jsnum list" where
  "top5Scores confidenceScores = map score (topK confidenceScores 5)"

section \<open>Chart objects and the window\<close>

text \<open>
  What a chart is given, as far as the claims go: the labels, and per dataset its label,
  its data and, where the source passes one, its \<^verbatim>\<open>base\<close> (the offsets of the bars).
  Colours, widths and the options are presentation and are left out.
\<close>

record dataset =
  label :: string
  data :: "jsnum list"
  base :: "jsnum list option"

record chart =
  ctx :: string
  labels :: "string list"
  datasets :: "dataset list"

text \<open>
  The three globals \<^verbatim>\<open>window.confidenceChart\<close>, \<^verbatim>\<open>window.parameterChart\<close> and
  \<^verbatim>\<open>window.rangeChart\<close> hold a chart object or are undefined.  \<open>charts\<close> lists the chart
  objects that are alive, each under its handle: \<^verbatim>\<open>new Chart(ctx, config)\<close> adds one
  under a fresh handle, \<^verbatim>\<open>chart.destroy()\<close> removes it.
\<close>

record window =
  confidenceChart :: "nat option"
  parameterChart :: "nat option"
  rangeChart :: "nat option"
  charts :: "(nat \<times> chart) list"
  fresh :: nat

definition initial_window :: window where
  "initial_window =
     \<lparr>confidenceChart = None, parameterChart = None, rangeChart = None,
      charts = [], fresh = 0\<rparr>"

definition destroy :: "nat \<Rightarrow> window \<Rightarrow> window" where
  "destroy h w = w\<lparr>charts := filter (\<lambda>(h', c). h' \<noteq> h) (charts w)\<rparr>"

definition new_Chart :: "chart \<Rightarrow> window \<Rightarrow> nat \<times> window" where
  "new_Chart c w = (fresh w, w\<lparr>charts := (fresh w, c) # charts w, fresh := Suc (fresh w)\<rparr>)"

text \<open>The chart object of lines 28 to 65.\<close>

definition confidenceChart_config :: "jsnum object \<Rightarrow> chart" where
  "confidenceChart_config confidenceScores =
     \<lparr>ctx = ''confidence-chart'',
      labels = top5Crops confidenceScores,
      datasets = [\<lparr>label = ''Confidence Score (%)'',
                   data = top5Scores confidenceScores,
                   base = None\<rparr>]\<rparr>"

text \<open>
  \<^verbatim>\<open>function createConfidenceChart(confidenceScores)\<close>, lines 2 to 66.  The statements
  that touch the window are
  \<^verbatim>\<open>if (window.confidenceChart) { window.confidenceChart.destroy(); }\<close> and
  \<^verbatim>\<open>window.confidenceChart = new Chart(ctx, {...});\<close>.
  The call passes through four windows: the one it starts in, the one after the
  \<^verbatim>\<open>if\<close> statement, the one after \<^verbatim>\<open>new Chart\<close> has made the chart, and the one after the
  assignment to the global.  The function returns the last of them.
\<close>

definition createConfidenceChart_states :: "jsnum object \<Rightarrow> window \<Rightarrow> window list" where
  "createConfidenceChart_states confidenceScores w =
     (let w1 = (case confidenceChart w of Some h \<Rightarrow> destroy h w | None \<Rightarrow> w);
          (h', w2) = new_Chart (confidenceChart_config confidenceScores) w1;
          w3 = w2\<lparr>confidenceChart := Some h'\<rparr>
      in [w, w1, w2, w3])"

definition createConfidenceChart :: "jsnum object \<Rightarrow> window \<Rightarrow> window" where
  "createConfidenceChart confidenceScores w =
     last (createConfidenceChart_states confidenceScores w)"

section \<open>The parameter comparison chart\<close>

text \<open>
  The objects \<^verbatim>\<open>userValues\<close>, \<^verbatim>\<open>ranges\<close>, \<^verbatim>\<open>normalizedUserValues\<close>, \<^verbatim>\<open>normalizedOptimalMin\<close>,
  \<^verbatim>\<open>normalizedOptimalMax\<close> and \<^verbatim>\<open>optimalRangeWidth\<close> all have the seven keys
  \<^verbatim>\<open>n, p, k, temp, humidity, ph, rainfall\<close>; each is a function of the key.
\<close>

datatype param_key = Kn | Kp | Kk | Ktemp | Khumidity | Kph | Krainfall

definition param_keys :: "param_key list" where
  "param_keys = [Kn, Kp, Kk, Ktemp, Khumidity, Kph, Krainfall]"

text \<open>The conditions of a crop, as \<^verbatim>\<open>/api/crop_conditions\<close> returns them.\<close>

record conditions =
  n_min :: jsnum
  n_max :: jsnum
  p_min :: jsnum
  p_max :: jsnum
  k_min :: jsnum
  k_max :: jsnum
  temperature_min :: jsnum
  temperature_max :: jsnum
  humidity_min :: jsnum
  humidity_max :: jsnum
  ph_min :: jsnum
  ph_max :: jsnum
  rainfall_min :: jsnum
  rainfall_max :: jsnum

fun ranges :: "param_key \<Rightarrow> jsnum \<times> jsnum" where
  "ranges Kn = (Fin 0, Fin 140)"
| "ranges Kp = (Fin 5, Fin 145)"
| "ranges Kk = (Fin 5, Fin 205)"
| "ranges Ktemp = (Fin 0, Fin 50)"
| "ranges Khumidity = (Fin 0, Fin 100)"
| "ranges Kph = (Fin 0, Fin 14)"
| "ranges Krainfall = (Fin 0, Fin 300)"

definition normalizedUserValues :: "(param_key \<Rightarrow> jsnum) \<Rightarrow> param_key \<Rightarrow> jsnum" where
  "normalizedUserValues userValues q =
     normalize (userValues q) (fst (ranges q)) (snd (ranges q))"

fun normalizedOptimalMin :: "conditions \<Rightarrow> param_key \<Rightarrow> jsnum" where
  "normalizedOptimalMin c Kn = normalize (n_min c) (fst (ranges Kn)) (snd (ranges Kn))"
| "normalizedOptimalMin c Kp = normalize (p_min c) (fst (ranges Kp)) (snd (ranges Kp))"
| "normalizedOptimalMin c Kk = normalize (k_min c) (fst (ranges Kk)) (snd (ranges Kk))"
| "normalizedOptimalMin c Ktemp =
     normalize (temperature_min c) (fst (ranges Ktemp)) (snd (ranges Ktemp))"
| "normalizedOptimalMin c Khumidity =
     normalize (humidity_min c) (fst (ranges Khumidity)) (snd (ranges Khumidity))"
| "normalizedOptimalMin c Kph = normalize (ph_min c) (fst (ranges Kph)) (snd (ranges Kph))"
| "normalizedOptimalMin c Krainfall =
     normalize (rainfall_min c) (fst (ranges Krainfall)) (snd (ranges Krainfall))"

fun normalizedOptimalMax :: "conditions \<Rightarrow> param_key \<Rightarrow> jsnum" where
  "normalizedOptimalMax c Kn = normalize (n_max c) (fst (ranges Kn)) (snd (ranges Kn))"
| "normalizedOptimalMax c Kp = normalize (p_max c) (fst (ranges Kp)) (snd (ranges Kp))"
| "normalizedOptimalMax c Kk = normalize (k_max c) (fst (ranges Kk)) (snd (ranges Kk))"
| "normalizedOptimalMax c Ktemp =
     normalize (temperature_max c) (fst (ranges Ktemp)) (snd (ranges Ktemp))"
| "normalizedOptimalMax c Khumidity =
     normalize (humidity_max c) (fst (ranges Khumidity)) (snd (ranges Khumidity))"
| "normalizedOptimalMax c Kph = normalize (ph_max c) (fst (ranges Kph)) (snd (ranges Kph))"
| "normalizedOptimalMax c Krainfall =
     normalize (rainfall_max c) (fst (ranges Krainfall)) (snd (ranges Krainfall))"

definition optimalRangeWidth :: "conditions \<Rightarrow> param_key \<Rightarrow> jsnum" where
  "optimalRangeWidth c q = normalizedOptimalMax c q - normalizedOptimalMin c q"

text \<open>
  The chart object of lines 154 to 260.  The second dataset is given the widths; the
  source passes no \<^verbatim>\<open>base\<close> to it.
\<close>

definition parameterChart_config :: "(param_key \<Rightarrow> jsnum) \<Rightarrow> conditions \<Rightarrow> chart" where
  "parameterChart_config userValues c =
     \<lparr>ctx = ''parameter-chart'',
      labels = [''Nitrogen'', ''Phosphorus'', ''Potassium'', ''Temperature'', ''Humidity'',
                ''pH'', ''Rainfall''],
      datasets =
        [\<lparr>label = ''Your Soil'',
          data = map (normalizedUserValues userValues) param_keys,
          base = None\<rparr>,
         \<lparr>label = ''Optimal Range'',
          data = map (optimalRangeWidth c) param_keys,
          base = None\<rparr>]\<rparr>"

text \<open>
  \<^verbatim>\<open>function createParameterComparisonChart(data, conditions)\<close>, lines 69 to 261.  The
  argument \<^verbatim>\<open>data\<close> is not used; \<open>userValues\<close> are the seven numbers \<^verbatim>\<open>parseFloat\<close> reads
  from the form.  Lines 150 to 154 touch the window as the confidence chart does, and the
  call passes through the same four windows.
\<close>

definition createParameterComparisonChart_states ::
    "(param_key \<Rightarrow> jsnum) \<Rightarrow> conditions \<Rightarrow> window \<Rightarrow> window list" where
  "createParameterComparisonChart_states userValues c w =
     (let w1 = (case parameterChart w of Some h \<Rightarrow> destroy h w | None \<Rightarrow> w);
          (h', w2) = new_Chart (parameterChart_config userValues c) w1;
          w3 = w2\<lparr>parameterChart := Some h'\<rparr>
      in [w, w1, w2, w3])"

definition createParameterComparisonChart ::
    "(param_key \<Rightarrow> jsnum) \<Rightarrow> conditions \<Rightarrow> window \<Rightarrow> window" where
  "createParameterComparisonChart userValues c w =
     last (createParameterComparisonChart_states userValues c w)"

section \<open>The range chart\<close>

record parameter =
  name :: string
  min_p :: jsnum
  max_p :: jsnum
  unit_p :: string
  totalRange :: "jsnum \<times> jsnum"

text \<open>The unit of the temperature is the degree sign (two bytes in UTF-8) and \<open>C\<close>.\<close>

definition parameters :: "conditions \<Rightarrow> parameter list" where
  "parameters c =
     [\<lparr>name = ''Nitrogen'', min_p = n_min c, max_p = n_max c, unit_p = ''kg/ha'',
       totalRange = (Fin 0, Fin 140)\<rparr>,
      \<lparr>name = ''Phosphorus'', min_p = p_min c, max_p = p_max c, unit_p = ''kg/ha'',
       totalRange = (Fin 5, Fin 145)\<rparr>,
      \<lparr>name = ''Potassium'', min_p = k_min c, max_p = k_max c, unit_p = ''kg/ha'',
       totalRange = (Fin 5, Fin 205)\<rparr>,
      \<lparr>name = ''Temperature'', min_p = temperature_min c, max_p = temperature_max c,
       unit_p = [CHR 0xC2, CHR 0xB0, CHR ''C''], totalRange = (Fin 0, Fin 50)\<rparr>,
      \<lparr>name = ''Humidity'', min_p = humidity_min c, max_p = humidity_max c, unit_p = ''%'',
       totalRange = (Fin 0, Fin 100)\<rparr>,
      \<lparr>name = ''pH'', min_p = ph_min c, max_p = ph_max c, unit_p = [],
       totalRange = (Fin 0, Fin 14)\<rparr>,
      \<lparr>name = ''Rainfall'', min_p = rainfall_min c, max_p = rainfall_max c, unit_p = ''mm'',
       totalRange = (Fin 0, Fin 300)\<rparr>]"

record range_entry =
  parameter :: string
  unit_e :: string
  minValue :: jsnum
  maxValue :: jsnum
  startPosition :: jsnum
  rangeWidth :: jsnum

text \<open>The arrow function of \<^verbatim>\<open>parameters.map\<close>, lines 279 to 293.\<close>

definition range_entry_of :: "parameter \<Rightarrow> range_entry" where
  "range_entry_of param =
     (let total = snd (totalRange param) - fst (totalRange param);
          minPercent = ((min_p param - fst (totalRange param)) / total) * Fin 100;
          maxPercent = ((max_p param - fst (totalRange param)) / total) * Fin 100;
          width = maxPercent - minPercent
      in \<lparr>parameter = name param, unit_e = unit_p param,
          minValue = min_p param, maxValue = max_p param,
          startPosition = minPercent, rangeWidth = width\<rparr>)"

definition rangeChart_config :: "conditions \<Rightarrow> chart" where
  "rangeChart_config c =
     (let entries = map range_entry_of (parameters c)
      in \<lparr>ctx = ''range-chart'',
          labels = map parameter entries,
          datasets = [\<lparr>label = ''Parameter Range'',
                       data = map rangeWidth entries,
                       base = Some (map startPosition entries)\<rparr>]\<rparr>)"

text \<open>
  \<^verbatim>\<open>function createRangeChart(cropName, conditions)\<close>, lines 264 to 345; lines 295 to 299
  touch the window, through the same four windows.
\<close>

definition createRangeChart_states :: "string \<Rightarrow> conditions \<Rightarrow> window \<Rightarrow> window list" where
  "createRangeChart_states cropName c w =
     (let w1 = (case rangeChart w of Some h \<Rightarrow> destroy h w | None \<Rightarrow> w);
          (h', w2) = new_Chart (rangeChart_config c) w1;
          w3 = w2\<lparr>rangeChart := Some h'\<rparr>
      in [w, w1, w2, w3])"

definition createRangeChart :: "string \<Rightarrow> conditions \<Rightarrow> window \<Rightarrow> window" where
  "createRangeChart cropName c w = last (createRangeChart_states cropName c w)"

text \<open>
  The interval operation of the range chart on its own: the start and the width that
  the arrow function computes for an interval \<open>[min, max]\<close> of a domain \<open>[lo, hi]\<close>.
\<close>

definition normalizeInterval :: "jsnum \<Rightarrow> jsnum \<Rightarrow> jsnum \<Rightarrow> jsnum \<Rightarrow> jsnum \<times> jsnum" where
  "normalizeInterval mn mx lo hi =
     (let e = range_entry_of
                \<lparr>name = [], min_p = mn, max_p = mx, unit_p = [], totalRange = (lo, hi)\<rparr>
      in (startPosition e, rangeWidth e))"

text \<open>
  The arrow function of lines 279 to 293 with the operators of the language, and the
  interval operation it gives: what the range chart computes on doubles.
\<close>

definition range_entry_of64 :: "parameter \<Rightarrow> range_entry" where
  "range_entry_of64 param =
     (let total = js_minus (snd (totalRange param)) (fst (totalRange param));
          minPercent =
            js_times (js_divide (js_minus (min_p param) (fst (totalRange param))) total) (Fin 100);
          maxPercent =
            js_times (js_divide (js_minus (max_p param) (fst (totalRange param))) total) (Fin 100);
          width = js_minus maxPercent minPercent
      in \<lparr>parameter = name param, unit_e = unit_p param,
          minValue = min_p param, maxValue = max_p param,
          startPosition = minPercent, rangeWidth = width\<rparr>)"

definition normalizeInterval64 :: "jsnum \<Rightarrow> jsnum \<Rightarrow> jsnum \<Rightarrow> jsnum \<Rightarrow> jsnum \<times> jsnum" where
  "normalizeInterval64 mn mx lo hi =
     (let e = range_entry_of64
                \<lparr>name = [], min_p = mn, max_p = mx, unit_p = [], totalRange = (lo, hi)\<rparr>
      in (startPosition e, rangeWidth e))"

section \<open>Redraws\<close>

text \<open>A redraw is a call of one of the three chart functions; a run is a sequence of them.\<close>

datatype redraw =
  Confidence "jsnum object"
| Comparison "param_key \<Rightarrow> jsnum" conditions
| Range string conditions

fun redraw_step :: "redraw \<Rightarrow> window \<Rightarrow> window" where
  "redraw_step (Confidence s) w = createConfidenceChart s w"
| "redraw_step (Comparison u c) w = createParameterComparisonChart u c w"
| "redraw_step (Range n c) w = createRangeChart n c w"

fun run :: "redraw list \<Rightarrow> window \<Rightarrow> window" where
  "run [] w = w"
| "run (r # rs) w = run rs (redraw_step r w)"

text \<open>Every window a run passes through, inside the calls as well as between them.\<close>

fun redraw_states :: "redraw \<Rightarrow> window \<Rightarrow> window list" where
  "redraw_states (Confidence s) w = createConfidenceChart_states s w"
| "redraw_states (Comparison u c) w = createParameterComparisonChart_states u c w"
| "redraw_states (Range n c) w = createRangeChart_states n c w"

fun run_states :: "redraw list \<Rightarrow> window \<Rightarrow> window list" where
  "run_states [] w = [w]"
| "run_states (r # rs) w = redraw_states r w @ run_states rs (redraw_step r w)"

text \<open>The live charts drawn on a canvas.\<close>

definition charts_on :: "string \<Rightarrow> window \<Rightarrow> (nat \<times> chart) list" where
  "charts_on canvas w = filter (\<lambda>(h, c). ctx c = canvas) (charts w)"

section \<open>Auxiliary notions for the statements\<close>

text \<open>\<^verbatim>\<open>Number.isFinite\<close>, and the real number a finite number stands for.\<close>

fun isFinite :: "jsnum \<Rightarrow> bool" where
  "isFinite (Fin a) = True"
| "isFinite _ = False"

fun real_of_jsnum :: "jsnum \<Rightarrow> real" where
  "real_of_jsnum (Fin a) = a"
| "real_of_jsnum _ = 0"

text \<open>An entry of the scores object as the item the chart code makes of it, and back.\<close>

definition item_of :: "string \<times> jsnum \<Rightarrow> item" where
  "item_of e = \<lparr>crop = capitalizeFirstLetter (fst e), score = snd e\<rparr>"

definition entry_of :: "item \<Rightarrow> string \<times> jsnum" where
  "entry_of i = (crop i, score i)"

text \<open>The arrow function that \<^verbatim>\<open>capitalizeFirstLetter\<close> maps over the words.\<close>

definition capitalize_word :: "string \<Rightarrow> string" where
  "capitalize_word word = toUpperCase (charAt word 0) @ slice_from word 1"

text \<open>Descending by score, in the order \<^verbatim>\<open><=\<close> of the language.\<close>

definition descending :: "item list \<Rightarrow> bool" where
  "descending xs = sorted_wrt (\<lambda>a b. num_le (score b) (score a)) xs"

text \<open>The key by which the comparator \<^verbatim>\<open>(a, b) => b.score - a.score\<close> orders items of finite score.\<close>

definition score_key :: "item \<Rightarrow> real" where
  "score_key e = - real_of_jsnum (score e)"

text \<open>Conditions whose nitrogen interval is \<open>[mn, mx]\<close>, every other interval being the whole domain.\<close>

definition nitrogen_conditions :: "real \<Rightarrow> real \<Rightarrow> conditions" where
  "nitrogen_conditions mn mx =
     \<lparr>n_min = Fin mn, n_max = Fin mx, p_min = Fin 5, p_max = Fin 145,
      k_min = Fin 5, k_max = Fin 205, temperature_min = Fin 0, temperature_max = Fin 50,
      humidity_min = Fin 0, humidity_max = Fin 100, ph_min = Fin 0, ph_max = Fin 14,
      rainfall_min = Fin 0, rainfall_max = Fin 300\<rparr>"

text \<open>One redraw of each chart, from a page that has drawn nothing yet.\<close>

definition three_redraws :: "redraw list" where
  "three_redraws =
     [Confidence [(''rice'', Fin 90)],
      Comparison (\<lambda>q. Fin 0) (nitrogen_conditions 0 70),
      Range ''rice'' (nitrogen_conditions 0 70)]"

text \<open>
  The invariant of the window between two calls: handles are distinct and below the next
  fresh one, every live chart is the one its canvas's global refers to, and a global
  that is set refers to a chart alive on its canvas.
\<close>

definition window_inv :: "window \<Rightarrow> bool" where
  "window_inv w \<longleftrightarrow>
     distinct (map fst (charts w)) \<and>
     (\<forall>(h, c) \<in> set (charts w).
        h < fresh w \<and>
        (ctx c = ''confidence-chart'' \<and> confidenceChart w = Some h \<or>
         ctx c = ''parameter-chart'' \<and> parameterChart w = Some h \<or>
         ctx c = ''range-chart'' \<and> rangeChart w = Some h)) \<and>
     (case confidenceChart w of
        None \<Rightarrow> True
      | Some h \<Rightarrow> h \<in> fst ` set (charts_on ''confidence-chart'' w)) \<and>
     (case parameterChart w of
        None \<Rightarrow> True
      | Some h \<Rightarrow> h \<in> fst ` set (charts_on ''parameter-chart'' w)) \<and>
     (case rangeChart w of
        None \<Rightarrow> True
      | Some h \<Rightarrow> h \<in> fst ` set (charts_on ''range-chart'' w))"

section \<open>Properties of the normaliser\<close>

lemma normalize_Fin:
  "lo \<noteq> hi \<Longrightarrow> normalize (Fin v) (Fin lo) (Fin hi) = Fin ((v - lo) / (hi - lo) * 100)"
  by (simp add: normalize_def)

lemma normalizeInterval_normalize:
  "normalizeInterval mn mx lo hi = (normalize mn lo hi, normalize mx lo hi - normalize mn lo hi)"
  by (simp add: normalizeInterval_def range_entry_of_def normalize_def Let_def)

lemma normalizeInterval_Fin:
  "lo \<noteq> hi \<Longrightarrow> normalizeInterval (Fin mn) (Fin mx) (Fin lo) (Fin hi) =
     (Fin ((mn - lo) / (hi - lo) * 100), Fin ((mx - mn) / (hi - lo) * 100))"
  by (simp add: normalizeInterval_normalize normalize_Fin algebra_simps diff_divide_distrib)

text \<open>
  Claim C1.  For all reals \<open>value\<close>, \<open>lo\<close>, \<open>hi\<close> with \<open>lo < hi\<close>, \<open>normalize\<close> returns exactly
  \<open>(value - lo) / (hi - lo) * 100\<close>, without clamping: it is \<open>0\<close> at \<open>lo\<close>, \<open>100\<close> at \<open>hi\<close>,
  \<open>50\<close> for \<open>normalize(70, 0, 140)\<close>, and leaves \<open>[0, 100]\<close> when the value leaves
  \<open>[lo, hi]\<close> (\<open>150\<close> and \<open>-10\<close> in \<open>[0, 100]\<close> stay \<open>150\<close> and \<open>-10\<close>).
\<close>

theorem normalize_exact:
  assumes "lo < hi"
  shows "normalize (Fin v) (Fin lo) (Fin hi) = Fin ((v - lo) / (hi - lo) * 100)
       \<and> normalize (Fin lo) (Fin lo) (Fin hi) = Fin 0
       \<and> normalize (Fin hi) (Fin lo) (Fin hi) = Fin 100
       \<and> normalize (Fin 70) (Fin 0) (Fin 140) = Fin 50
       \<and> normalize (Fin 150) (Fin 0) (Fin 100) = Fin 150
       \<and> normalize (Fin (- 10)) (Fin 0) (Fin 100) = Fin (- 10)"
  using assms by (simp add: normalize_Fin)

theorem normalize_exact_witness:
  "(0::real) < 140 \<and> normalize (Fin 70) (Fin 0) (Fin 140) = Fin ((70 - 0) / (140 - 0) * 100)"
proof -
  have h: "(0::real) < 140" by simp
  from normalize_exact [OF h, of 70] show ?thesis using h by blast
qed

text \<open>
  Claim C2.  \<open>normalizeInterval(min, max, lo, hi)\<close> is the pair of \<open>normalize(min, lo, hi)\<close>
  and \<open>normalize(max, lo, hi) - normalize(min, lo, hi)\<close>, in the range chart (whose arrow
  function writes the formula out) and, for each of the seven parameters, in the
  comparison chart; \<open>normalizeInterval(20, 40, 0, 100)\<close> is \<open>(20, 20)\<close>.  The equations hold
  for all numbers, so in particular for \<open>lo < hi\<close>.
\<close>

theorem normalizeInterval_pair:
  "normalizeInterval mn mx lo hi = (normalize mn lo hi, normalize mx lo hi - normalize mn lo hi)
   \<and> normalizeInterval (Fin 20) (Fin 40) (Fin 0) (Fin 100) = (Fin 20, Fin 20)
   \<and> (normalizedOptimalMin c Kn, optimalRangeWidth c Kn) =
       normalizeInterval (n_min c) (n_max c) (Fin 0) (Fin 140)
   \<and> (normalizedOptimalMin c Kp, optimalRangeWidth c Kp) =
       normalizeInterval (p_min c) (p_max c) (Fin 5) (Fin 145)
   \<and> (normalizedOptimalMin c Kk, optimalRangeWidth c Kk) =
       normalizeInterval (k_min c) (k_max c) (Fin 5) (Fin 205)
   \<and> (normalizedOptimalMin c Ktemp, optimalRangeWidth c Ktemp) =
       normalizeInterval (temperature_min c) (temperature_max c) (Fin 0) (Fin 50)
   \<and> (normalizedOptimalMin c Khumidity, optimalRangeWidth c Khumidity) =
       normalizeInterval (humidity_min c) (humidity_max c) (Fin 0) (Fin 100)
   \<and> (normalizedOptimalMin c Kph, optimalRangeWidth c Kph) =
       normalizeInterval (ph_min c) (ph_max c) (Fin 0) (Fin 14)
   \<and> (normalizedOptimalMin c Krainfall, optimalRangeWidth c Krainfall) =
       normalizeInterval (rainfall_min c) (rainfall_max c) (Fin 0) (Fin 300)"
  by (simp add: normalizeInterval_normalize optimalRangeWidth_def normalize_Fin)

text \<open>
  Claim C3.  For \<open>lo < hi\<close> and \<open>min \<le> max\<close> the width of
  \<open>normalizeInterval(min, max, lo, hi)\<close> is at least \<open>0\<close>.
\<close>

theorem width_nonneg:
  assumes "lo < hi" and "mn \<le> mx"
  shows "num_le (Fin 0) (snd (normalizeInterval (Fin mn) (Fin mx) (Fin lo) (Fin hi)))"
  using assms by (simp add: normalizeInterval_Fin)

theorem width_nonneg_witness:
  "(0::real) < 100 \<and> (20::real) \<le> 40
   \<and> num_le (Fin 0) (snd (normalizeInterval (Fin 20) (Fin 40) (Fin 0) (Fin 100)))"
proof -
  have h: "(0::real) < 100" "(20::real) \<le> 40" by simp_all
  from width_nonneg [OF h] show ?thesis using h by blast
qed

text \<open>
  Claim C5.  For \<open>lo < hi\<close>, \<open>normalize\<close> is strictly increasing in its value:
  \<open>v1 < v2\<close> gives \<open>normalize(v1, lo, hi) < normalize(v2, lo, hi)\<close>.
\<close>

theorem normalize_strict_mono:
  assumes "lo < hi" and "v1 < v2"
  shows "num_less (normalize (Fin v1) (Fin lo) (Fin hi)) (normalize (Fin v2) (Fin lo) (Fin hi))"
  using assms by (simp add: normalize_Fin divide_strict_right_mono)

theorem normalize_strict_mono_witness:
  "(0::real) < 140 \<and> (35::real) < 70
   \<and> num_less (normalize (Fin 35) (Fin 0) (Fin 140)) (normalize (Fin 70) (Fin 0) (Fin 140))"
proof -
  have h: "(0::real) < 140" "(35::real) < 70" by simp_all
  from normalize_strict_mono [OF h] show ?thesis using h by blast
qed

lemma optimalRangeWidth_nitrogen:
  "optimalRangeWidth (nitrogen_conditions mn mx) Kn = Fin ((mx - mn) / (140 - 0) * 100)"
proof -
  have "(mx - 0) / (140 - 0) * 100 - (mn - 0) / (140 - 0) * 100 = (mx - mn) / (140 - 0) * (100::real)"
    by (simp add: diff_divide_distrib)
  then show ?thesis
    by (simp add: optimalRangeWidth_def nitrogen_conditions_def normalize_Fin)
qed

text \<open>
  Claim C10.  For \<open>lo < hi\<close> the width of \<open>normalizeInterval(min, max, lo, hi)\<close> is
  \<open>(max - min) / (hi - lo) * 100\<close>; it depends on \<open>max - min\<close> only, so moving the interval
  by any \<open>d\<close> leaves the width as it is.  The same holds for the width the comparison chart
  computes, here for nitrogen on its domain \<open>[0, 140]\<close>.
\<close>

theorem width_translation:
  assumes "lo < hi"
  shows "snd (normalizeInterval (Fin mn) (Fin mx) (Fin lo) (Fin hi)) =
           Fin ((mx - mn) / (hi - lo) * 100)
       \<and> snd (normalizeInterval (Fin (mn + d)) (Fin (mx + d)) (Fin lo) (Fin hi)) =
           snd (normalizeInterval (Fin mn) (Fin mx) (Fin lo) (Fin hi))
       \<and> optimalRangeWidth (nitrogen_conditions mn mx) Kn = Fin ((mx - mn) / (140 - 0) * 100)
       \<and> optimalRangeWidth (nitrogen_conditions (mn + d) (mx + d)) Kn =
           optimalRangeWidth (nitrogen_conditions mn mx) Kn"
  using assms by (simp add: normalizeInterval_Fin optimalRangeWidth_nitrogen)

theorem width_translation_witness:
  "(0::real) < 100
   \<and> snd (normalizeInterval (Fin 20) (Fin 40) (Fin 0) (Fin 100)) = Fin ((40 - 20) / (100 - 0) * 100)
   \<and> snd (normalizeInterval (Fin (20 + 30)) (Fin (40 + 30)) (Fin 0) (Fin 100)) =
       snd (normalizeInterval (Fin 20) (Fin 40) (Fin 0) (Fin 100))"
proof -
  have h: "(0::real) < 100" by simp
  from width_translation [OF h, of 20 40 30] show ?thesis using h by blast
qed

section \<open>The window holds one chart per canvas\<close>

lemma window_inv_initial: "window_inv initial_window"
  by (simp add: window_inv_def initial_window_def)

lemma window_inv_owner:
  assumes "window_inv w" and "(h, c) \<in> set (charts w)"
  shows "ctx c = ''confidence-chart'' \<and> confidenceChart w = Some h \<or>
         ctx c = ''parameter-chart'' \<and> parameterChart w = Some h \<or>
         ctx c = ''range-chart'' \<and> rangeChart w = Some h"
  using assms by (auto simp: window_inv_def)

lemma window_inv_below_fresh:
  assumes "window_inv w" and "(h, c) \<in> set (charts w)"
  shows "h < fresh w"
  using assms by (auto simp: window_inv_def)

lemma window_inv_distinct: "window_inv w \<Longrightarrow> distinct (map fst (charts w))"
  by (simp add: window_inv_def)

lemma distinct_all_equal:
  assumes "distinct (map fst xs)"
    and "\<forall>x \<in> set xs. \<forall>y \<in> set xs. fst x = fst y"
  shows "length xs \<le> 1"
proof (cases xs)
  case Nil
  then show ?thesis by simp
next
  case (Cons x ys)
  show ?thesis
  proof (cases ys)
    case Nil
    with Cons show ?thesis by simp
  next
    case (Cons y zs)
    with \<open>xs = x # ys\<close> have xs: "xs = x # y # zs" by simp
    then have "x \<in> set xs" and "y \<in> set xs" by simp_all
    with assms(2) have "fst x = fst y" by blast
    moreover from assms(1) have "fst x \<noteq> fst y" unfolding xs by simp
    ultimately show ?thesis by blast
  qed
qed

lemma window_inv_at_most_one:
  assumes "window_inv w"
  shows "length (charts_on canvas w) \<le> 1"
proof -
  have d: "distinct (map fst (charts_on canvas w))"
    using assms by (simp add: window_inv_def charts_on_def distinct_map_filter)
  have a: "\<forall>x \<in> set (charts_on canvas w). \<forall>y \<in> set (charts_on canvas w). fst x = fst y"
  proof (intro ballI)
    fix x y
    assume "x \<in> set (charts_on canvas w)" and "y \<in> set (charts_on canvas w)"
    then have x: "(fst x, snd x) \<in> set (charts w)" "ctx (snd x) = canvas"
      and y: "(fst y, snd y) \<in> set (charts w)" "ctx (snd y) = canvas"
      by (auto simp: charts_on_def)
    from window_inv_owner [OF assms x(1)] window_inv_owner [OF assms y(1)] x(2) y(2)
    show "fst x = fst y" by auto
  qed
  from distinct_all_equal [OF d a] show ?thesis .
qed

lemma charts_on_destroy:
  "charts_on canvas (destroy h w) = filter (\<lambda>(h', c). h' \<noteq> h) (charts_on canvas w)"
  by (auto simp: charts_on_def destroy_def intro: filter_cong)

lemma length_charts_on_destroy:
  "length (charts_on canvas (destroy h w)) \<le> length (charts_on canvas w)"
  by (simp add: charts_on_destroy)

lemma charts_on_new:
  "charts_on canvas (snd (new_Chart c w)) =
     (if ctx c = canvas then (fresh w, c) # charts_on canvas w else charts_on canvas w)"
  by (simp add: charts_on_def new_Chart_def)

lemma charts_on_global [simp]:
  "charts_on canvas (w\<lparr>confidenceChart := g\<rparr>) = charts_on canvas w"
  "charts_on canvas (w\<lparr>parameterChart := g\<rparr>) = charts_on canvas w"
  "charts_on canvas (w\<lparr>rangeChart := g\<rparr>) = charts_on canvas w"
  by (simp_all add: charts_on_def)

lemma destroy_other_canvas:
  assumes inv: "window_inv w" and hc: "(h, c) \<in> set (charts w)" and other: "ctx c \<noteq> canvas"
  shows "charts_on canvas (destroy h w) = charts_on canvas w"
proof -
  have "\<forall>x \<in> set (charts_on canvas w). (case x of (h', c') \<Rightarrow> h' \<noteq> h)"
  proof
    fix x assume x: "x \<in> set (charts_on canvas w)"
    then have in_w: "(fst x, snd x) \<in> set (charts w)" and cv: "ctx (snd x) = canvas"
      by (auto simp: charts_on_def)
    have "fst x \<noteq> h"
    proof
      assume "fst x = h"
      with in_w hc window_inv_distinct [OF inv] have "snd x = c"
        by (metis eq_key_imp_eq_value)
      with cv other show False by simp
    qed
    then show "case x of (h', c') \<Rightarrow> h' \<noteq> h" by (cases x) simp
  qed
  then have "filter (\<lambda>(h', c'). h' \<noteq> h) (charts_on canvas w) = charts_on canvas w"
    by (simp only: filter_True)
  then show ?thesis by (simp add: charts_on_destroy)
qed

lemma destroy_own_canvas:
  assumes "\<forall>x \<in> set (charts_on canvas w). fst x = h"
  shows "charts_on canvas (destroy h w) = []"
  using assms by (auto simp: charts_on_destroy filter_empty_conv)

lemma global_live:
  assumes "window_inv w"
  shows "confidenceChart w = Some h \<Longrightarrow> h \<in> fst ` set (charts_on ''confidence-chart'' w)"
    and "parameterChart w = Some h \<Longrightarrow> h \<in> fst ` set (charts_on ''parameter-chart'' w)"
    and "rangeChart w = Some h \<Longrightarrow> h \<in> fst ` set (charts_on ''range-chart'' w)"
  using assms by (auto simp: window_inv_def)

lemma canvas_owner:
  assumes "window_inv w" and "x \<in> set (charts_on canvas w)"
  shows "canvas = ''confidence-chart'' \<Longrightarrow> confidenceChart w = Some (fst x)"
    and "canvas = ''parameter-chart'' \<Longrightarrow> parameterChart w = Some (fst x)"
    and "canvas = ''range-chart'' \<Longrightarrow> rangeChart w = Some (fst x)"
proof -
  from assms(2) have "(fst x, snd x) \<in> set (charts w)" and "ctx (snd x) = canvas"
    by (auto simp: charts_on_def)
  with window_inv_owner [OF assms(1), of "fst x" "snd x"]
  show "canvas = ''confidence-chart'' \<Longrightarrow> confidenceChart w = Some (fst x)"
    and "canvas = ''parameter-chart'' \<Longrightarrow> parameterChart w = Some (fst x)"
    and "canvas = ''range-chart'' \<Longrightarrow> rangeChart w = Some (fst x)"
    by auto
qed

text \<open>The window after the \<^verbatim>\<open>if\<close> statement of the confidence chart.\<close>

lemma confidence_released:
  assumes inv: "window_inv w"
  defines "w1 \<equiv> (case confidenceChart w of Some h \<Rightarrow> destroy h w | None \<Rightarrow> w)"
  shows "charts_on ''confidence-chart'' w1 = []"
    and "canvas \<noteq> ''confidence-chart'' \<Longrightarrow> charts_on canvas w1 = charts_on canvas w"
    and "fresh w1 = fresh w"
    and "confidenceChart w = Some h \<Longrightarrow> h \<notin> fst ` set (charts w1)"
proof -
  show "charts_on ''confidence-chart'' w1 = []"
  proof (cases "confidenceChart w")
    case None
    have "charts_on ''confidence-chart'' w = []"
    proof (cases "charts_on ''confidence-chart'' w")
      case (Cons x xs)
      then have "x \<in> set (charts_on ''confidence-chart'' w)" by simp
      from canvas_owner(1) [OF inv this] None show ?thesis by simp
    qed simp
    with None show ?thesis by (simp add: w1_def)
  next
    case (Some h')
    have "\<forall>x \<in> set (charts_on ''confidence-chart'' w). fst x = h'"
      using canvas_owner(1) [OF inv] Some by auto
    then show ?thesis using Some by (simp add: w1_def destroy_own_canvas)
  qed
  show "charts_on canvas w1 = charts_on canvas w" if "canvas \<noteq> ''confidence-chart''"
  proof (cases "confidenceChart w")
    case None
    then show ?thesis by (simp add: w1_def)
  next
    case (Some h')
    from global_live(1) [OF inv Some] obtain c where "(h', c) \<in> set (charts w)"
      and "ctx c = ''confidence-chart''" by (auto simp: charts_on_def)
    with destroy_other_canvas [OF inv, of h' c canvas] that Some show ?thesis
      by (simp add: w1_def)
  qed
  show "fresh w1 = fresh w"
    by (simp add: w1_def destroy_def split: option.splits)
  show "h \<notin> fst ` set (charts w1)" if "confidenceChart w = Some h"
    using that by (auto simp: w1_def destroy_def)
qed


lemma createConfidenceChart_states_unfold:
  "createConfidenceChart_states s w =
     (let w1 = (case confidenceChart w of Some h \<Rightarrow> destroy h w | None \<Rightarrow> w);
          w2 = snd (new_Chart (confidenceChart_config s) w1)
      in [w, w1, w2, w2\<lparr>confidenceChart := Some (fresh w)\<rparr>])"
  by (simp add: createConfidenceChart_states_def Let_def new_Chart_def destroy_def
        split: option.splits)

lemma createConfidenceChart_final:
  "createConfidenceChart s w =
     (case confidenceChart w of Some h \<Rightarrow> destroy h w | None \<Rightarrow> w)
       \<lparr>charts := (fresh w, confidenceChart_config s) #
           charts (case confidenceChart w of Some h \<Rightarrow> destroy h w | None \<Rightarrow> w),
        fresh := Suc (fresh w), confidenceChart := Some (fresh w)\<rparr>"
  by (simp add: createConfidenceChart_def createConfidenceChart_states_def Let_def new_Chart_def
        destroy_def split: option.splits)

lemma window_inv_createConfidenceChart:
  assumes inv: "window_inv w"
  shows "window_inv (createConfidenceChart s w)"
proof -
  define w1 where "w1 = (case confidenceChart w of Some h \<Rightarrow> destroy h w | None \<Rightarrow> w)"
  define w3 where "w3 = w1\<lparr>charts := (fresh w, confidenceChart_config s) # charts w1,
    fresh := Suc (fresh w), confidenceChart := Some (fresh w)\<rparr>"
  have final: "createConfidenceChart s w = w3"
    by (simp only: createConfidenceChart_final w3_def w1_def)
  have sub: "set (charts w1) \<subseteq> set (charts w)"
    by (auto simp: w1_def destroy_def split: option.splits)
  have dist1: "distinct (map fst (charts w1))"
    using window_inv_distinct [OF inv]
    by (auto simp: w1_def destroy_def distinct_map_filter split: option.splits)
  have globals: "parameterChart w1 = parameterChart w" "rangeChart w1 = rangeChart w"
    by (simp_all add: w1_def destroy_def split: option.splits)
  have empty: "charts_on ''confidence-chart'' w1 = []"
    unfolding w1_def by (rule confidence_released(1) [OF inv])
  have other: "charts_on canvas w1 = charts_on canvas w" if "canvas \<noteq> ''confidence-chart''" for canvas
    unfolding w1_def by (rule confidence_released(2) [OF inv that])
  have on3: "charts_on canvas w3 =
      (if canvas = ''confidence-chart'' then [(fresh w, confidenceChart_config s)]
       else charts_on canvas w)" for canvas
    using empty other [of canvas]
    by (auto simp: w3_def charts_on_def confidenceChart_config_def Let_def)
  have below: "h < fresh w" if "(h, c) \<in> set (charts w1)" for h c
    using that sub window_inv_below_fresh [OF inv] by blast
  have "fresh w \<notin> fst ` set (charts w1)"
  proof
    assume "fresh w \<in> fst ` set (charts w1)"
    then obtain c where "(fresh w, c) \<in> set (charts w1)" by auto
    from below [OF this] show False by simp
  qed
  then have d3: "distinct (map fst (charts w3))"
    using dist1 by (simp add: w3_def)
  have owner3: "\<forall>(h, c) \<in> set (charts w3).
        h < fresh w3 \<and>
        (ctx c = ''confidence-chart'' \<and> confidenceChart w3 = Some h \<or>
         ctx c = ''parameter-chart'' \<and> parameterChart w3 = Some h \<or>
         ctx c = ''range-chart'' \<and> rangeChart w3 = Some h)"
  proof (intro ballI, clarify)
    fix h c assume hc: "(h, c) \<in> set (charts w3)"
    show "h < fresh w3 \<and>
        (ctx c = ''confidence-chart'' \<and> confidenceChart w3 = Some h \<or>
         ctx c = ''parameter-chart'' \<and> parameterChart w3 = Some h \<or>
         ctx c = ''range-chart'' \<and> rangeChart w3 = Some h)"
    proof (cases "(h, c) = (fresh w, confidenceChart_config s)")
      case True
      then show ?thesis by (simp add: w3_def confidenceChart_config_def Let_def)
    next
      case False
      with hc have in1: "(h, c) \<in> set (charts w1)" by (auto simp: w3_def)
      then have "ctx c \<noteq> ''confidence-chart''"
        using empty by (auto simp: charts_on_def filter_empty_conv)
      moreover from in1 sub have "(h, c) \<in> set (charts w)" by blast
      ultimately show ?thesis
        using window_inv_owner [OF inv, of h c] below [OF in1] globals
        by (auto simp: w3_def)
    qed
  qed
  have gc: "confidenceChart w3 = Some (fresh w)" "parameterChart w3 = parameterChart w"
      "rangeChart w3 = rangeChart w"
    by (simp_all add: w3_def globals)
  have g1: "case confidenceChart w3 of None \<Rightarrow> True
            | Some h \<Rightarrow> h \<in> fst ` set (charts_on ''confidence-chart'' w3)"
    by (simp add: gc on3)
  have g2: "case parameterChart w3 of None \<Rightarrow> True
            | Some h \<Rightarrow> h \<in> fst ` set (charts_on ''parameter-chart'' w3)"
    using global_live(2) [OF inv] by (auto simp: gc on3 split: option.splits)
  have g3: "case rangeChart w3 of None \<Rightarrow> True
            | Some h \<Rightarrow> h \<in> fst ` set (charts_on ''range-chart'' w3)"
    using global_live(3) [OF inv] by (auto simp: gc on3 split: option.splits)
  from d3 owner3 g1 g2 g3 show ?thesis
    unfolding final window_inv_def by blast
qed


lemma createConfidenceChart_states_at_most_one:
  assumes inv: "window_inv w"
  shows "\<forall>w' \<in> set (createConfidenceChart_states s w). length (charts_on canvas w') \<le> 1"
proof -
  define w1 where "w1 = (case confidenceChart w of Some h \<Rightarrow> destroy h w | None \<Rightarrow> w)"
  define w2 where "w2 = snd (new_Chart (confidenceChart_config s) w1)"
  have states: "createConfidenceChart_states s w =
      [w, w1, w2, w2\<lparr>confidenceChart := Some (fresh w)\<rparr>]"
    by (simp add: createConfidenceChart_states_unfold Let_def w1_def w2_def)
  have l0: "length (charts_on canvas w) \<le> 1"
    by (rule window_inv_at_most_one [OF inv])
  have on1: "charts_on canvas w1 =
      (if canvas = ''confidence-chart'' then [] else charts_on canvas w)"
    using confidence_released(1,2) [OF inv] by (simp add: w1_def)
  have on2: "charts_on canvas w2 =
      (if canvas = ''confidence-chart'' then [(fresh w1, confidenceChart_config s)]
       else charts_on canvas w)"
    by (simp add: w2_def charts_on_new on1) (simp add: confidenceChart_config_def Let_def)
  from l0 show ?thesis by (simp add: states on1 on2)
qed

lemma createConfidenceChart_effect:
  assumes inv: "window_inv w"
  shows "charts_on ''confidence-chart'' (createConfidenceChart_states s w ! 1) = []"
    and "charts_on ''confidence-chart'' (createConfidenceChart s w) =
           [(fresh w, confidenceChart_config s)]"
    and "confidenceChart (createConfidenceChart s w) = Some (fresh w)"
    and "confidenceChart w = Some h \<Longrightarrow>
           h \<in> fst ` set (charts_on ''confidence-chart'' w) \<and>
           h \<notin> fst ` set (charts (createConfidenceChart_states s w ! 1))"
proof -
  have second: "createConfidenceChart_states s w ! 1 =
      (case confidenceChart w of Some h \<Rightarrow> destroy h w | None \<Rightarrow> w)"
    by (simp add: createConfidenceChart_states_unfold Let_def)
  show "charts_on ''confidence-chart'' (createConfidenceChart_states s w ! 1) = []"
    by (simp only: second confidence_released(1) [OF inv])
  show "charts_on ''confidence-chart'' (createConfidenceChart s w) =
           [(fresh w, confidenceChart_config s)]"
    using confidence_released(1) [OF inv]
    by (simp add: createConfidenceChart_final charts_on_def confidenceChart_config_def Let_def)
  show "confidenceChart (createConfidenceChart s w) = Some (fresh w)"
    by (simp add: createConfidenceChart_final)
  show "h \<in> fst ` set (charts_on ''confidence-chart'' w) \<and>
        h \<notin> fst ` set (charts (createConfidenceChart_states s w ! 1))"
    if "confidenceChart w = Some h"
    using global_live(1) [OF inv that] confidence_released(4) [OF inv that]
    by (simp only: second) simp
qed

text \<open>The window after the \<^verbatim>\<open>if\<close> statement of the comparison chart.\<close>

lemma parameter_released:
  assumes inv: "window_inv w"
  defines "w1 \<equiv> (case parameterChart w of Some h \<Rightarrow> destroy h w | None \<Rightarrow> w)"
  shows "charts_on ''parameter-chart'' w1 = []"
    and "canvas \<noteq> ''parameter-chart'' \<Longrightarrow> charts_on canvas w1 = charts_on canvas w"
    and "fresh w1 = fresh w"
    and "parameterChart w = Some h \<Longrightarrow> h \<notin> fst ` set (charts w1)"
proof -
  show "charts_on ''parameter-chart'' w1 = []"
  proof (cases "parameterChart w")
    case None
    have "charts_on ''parameter-chart'' w = []"
    proof (cases "charts_on ''parameter-chart'' w")
      case (Cons x xs)
      then have "x \<in> set (charts_on ''parameter-chart'' w)" by simp
      from canvas_owner(2) [OF inv this] None show ?thesis by simp
    qed simp
    with None show ?thesis by (simp add: w1_def)
  next
    case (Some h')
    have "\<forall>x \<in> set (charts_on ''parameter-chart'' w). fst x = h'"
      using canvas_owner(2) [OF inv] Some by auto
    then show ?thesis using Some by (simp add: w1_def destroy_own_canvas)
  qed
  show "charts_on canvas w1 = charts_on canvas w" if "canvas \<noteq> ''parameter-chart''"
  proof (cases "parameterChart w")
    case None
    then show ?thesis by (simp add: w1_def)
  next
    case (Some h')
    from global_live(2) [OF inv Some] obtain c where "(h', c) \<in> set (charts w)"
      and "ctx c = ''parameter-chart''" by (auto simp: charts_on_def)
    with destroy_other_canvas [OF inv, of h' c canvas] that Some show ?thesis
      by (simp add: w1_def)
  qed
  show "fresh w1 = fresh w"
    by (simp add: w1_def destroy_def split: option.splits)
  show "h \<notin> fst ` set (charts w1)" if "parameterChart w = Some h"
    using that by (auto simp: w1_def destroy_def)
qed


lemma createParameterComparisonChart_states_unfold:
  "createParameterComparisonChart_states u cnd w =
     (let w1 = (case parameterChart w of Some h \<Rightarrow> destroy h w | None \<Rightarrow> w);
          w2 = snd (new_Chart (parameterChart_config u cnd) w1)
      in [w, w1, w2, w2\<lparr>parameterChart := Some (fresh w)\<rparr>])"
  by (simp add: createParameterComparisonChart_states_def Let_def new_Chart_def destroy_def
        split: option.splits)

lemma createParameterComparisonChart_final:
  "createParameterComparisonChart u cnd w =
     (case parameterChart w of Some h \<Rightarrow> destroy h w | None \<Rightarrow> w)
       \<lparr>charts := (fresh w, parameterChart_config u cnd) #
           charts (case parameterChart w of Some h \<Rightarrow> destroy h w | None \<Rightarrow> w),
        fresh := Suc (fresh w), parameterChart := Some (fresh w)\<rparr>"
  by (simp add: createParameterComparisonChart_def createParameterComparisonChart_states_def Let_def new_Chart_def
        destroy_def split: option.splits)

lemma window_inv_createParameterComparisonChart:
  assumes inv: "window_inv w"
  shows "window_inv (createParameterComparisonChart u cnd w)"
proof -
  define w1 where "w1 = (case parameterChart w of Some h \<Rightarrow> destroy h w | None \<Rightarrow> w)"
  define w3 where "w3 = w1\<lparr>charts := (fresh w, parameterChart_config u cnd) # charts w1,
    fresh := Suc (fresh w), parameterChart := Some (fresh w)\<rparr>"
  have final: "createParameterComparisonChart u cnd w = w3"
    by (simp only: createParameterComparisonChart_final w3_def w1_def)
  have sub: "set (charts w1) \<subseteq> set (charts w)"
    by (auto simp: w1_def destroy_def split: option.splits)
  have dist1: "distinct (map fst (charts w1))"
    using window_inv_distinct [OF inv]
    by (auto simp: w1_def destroy_def distinct_map_filter split: option.splits)
  have globals: "confidenceChart w1 = confidenceChart w" "rangeChart w1 = rangeChart w"
    by (simp_all add: w1_def destroy_def split: option.splits)
  have empty: "charts_on ''parameter-chart'' w1 = []"
    unfolding w1_def by (rule parameter_released(1) [OF inv])
  have other: "charts_on canvas w1 = charts_on canvas w" if "canvas \<noteq> ''parameter-chart''" for canvas
    unfolding w1_def by (rule parameter_released(2) [OF inv that])
  have on3: "charts_on canvas w3 =
      (if canvas = ''parameter-chart'' then [(fresh w, parameterChart_config u cnd)]
       else charts_on canvas w)" for canvas
    using empty other [of canvas]
    by (auto simp: w3_def charts_on_def parameterChart_config_def Let_def)
  have below: "h < fresh w" if "(h, c) \<in> set (charts w1)" for h c
    using that sub window_inv_below_fresh [OF inv] by blast
  have "fresh w \<notin> fst ` set (charts w1)"
  proof
    assume "fresh w \<in> fst ` set (charts w1)"
    then obtain c where "(fresh w, c) \<in> set (charts w1)" by auto
    from below [OF this] show False by simp
  qed
  then have d3: "distinct (map fst (charts w3))"
    using dist1 by (simp add: w3_def)
  have owner3: "\<forall>(h, c) \<in> set (charts w3).
        h < fresh w3 \<and>
        (ctx c = ''confidence-chart'' \<and> confidenceChart w3 = Some h \<or>
         ctx c = ''parameter-chart'' \<and> parameterChart w3 = Some h \<or>
         ctx c = ''range-chart'' \<and> rangeChart w3 = Some h)"
  proof (intro ballI, clarify)
    fix h c assume hc: "(h, c) \<in> set (charts w3)"
    show "h < fresh w3 \<and>
        (ctx c = ''confidence-chart'' \<and> confidenceChart w3 = Some h \<or>
         ctx c = ''parameter-chart'' \<and> parameterChart w3 = Some h \<or>
         ctx c = ''range-chart'' \<and> rangeChart w3 = Some h)"
    proof (cases "(h, c) = (fresh w, parameterChart_config u cnd)")
      case True
      then show ?thesis by (simp add: w3_def parameterChart_config_def Let_def)
    next
      case False
      with hc have in1: "(h, c) \<in> set (charts w1)" by (auto simp: w3_def)
      then have "ctx c \<noteq> ''parameter-chart''"
        using empty by (auto simp: charts_on_def filter_empty_conv)
      moreover from in1 sub have "(h, c) \<in> set (charts w)" by blast
      ultimately show ?thesis
        using window_inv_owner [OF inv, of h c] below [OF in1] globals
        by (auto simp: w3_def)
    qed
  qed
  have gc: "parameterChart w3 = Some (fresh w)" "confidenceChart w3 = confidenceChart w"
      "rangeChart w3 = rangeChart w"
    by (simp_all add: w3_def globals)
  have g1: "case confidenceChart w3 of None \<Rightarrow> True
            | Some h \<Rightarrow> h \<in> fst ` set (charts_on ''confidence-chart'' w3)"
    using global_live(1) [OF inv] by (auto simp: gc on3 split: option.splits)
  have g2: "case parameterChart w3 of None \<Rightarrow> True
            | Some h \<Rightarrow> h \<in> fst ` set (charts_on ''parameter-chart'' w3)"
    by (simp add: gc on3)
  have g3: "case rangeChart w3 of None \<Rightarrow> True
            | Some h \<Rightarrow> h \<in> fst ` set (charts_on ''range-chart'' w3)"
    using global_live(3) [OF inv] by (auto simp: gc on3 split: option.splits)
  from d3 owner3 g1 g2 g3 show ?thesis
    unfolding final window_inv_def by blast
qed


lemma createParameterComparisonChart_states_at_most_one:
  assumes inv: "window_inv w"
  shows "\<forall>w' \<in> set (createParameterComparisonChart_states u cnd w). length (charts_on canvas w') \<le> 1"
proof -
  define w1 where "w1 = (case parameterChart w of Some h \<Rightarrow> destroy h w | None \<Rightarrow> w)"
  define w2 where "w2 = snd (new_Chart (parameterChart_config u cnd) w1)"
  have states: "createParameterComparisonChart_states u cnd w =
      [w, w1, w2, w2\<lparr>parameterChart := Some (fresh w)\<rparr>]"
    by (simp add: createParameterComparisonChart_states_unfold Let_def w1_def w2_def)
  have l0: "length (charts_on canvas w) \<le> 1"
    by (rule window_inv_at_most_one [OF inv])
  have on1: "charts_on canvas w1 =
      (if canvas = ''parameter-chart'' then [] else charts_on canvas w)"
    using parameter_released(1,2) [OF inv] by (simp add: w1_def)
  have on2: "charts_on canvas w2 =
      (if canvas = ''parameter-chart'' then [(fresh w1, parameterChart_config u cnd)]
       else charts_on canvas w)"
    by (simp add: w2_def charts_on_new on1) (simp add: parameterChart_config_def Let_def)
  from l0 show ?thesis by (simp add: states on1 on2)
qed

lemma createParameterComparisonChart_effect:
  assumes inv: "window_inv w"
  shows "charts_on ''parameter-chart'' (createParameterComparisonChart_states u cnd w ! 1) = []"
    and "charts_on ''parameter-chart'' (createParameterComparisonChart u cnd w) =
           [(fresh w, parameterChart_config u cnd)]"
    and "parameterChart (createParameterComparisonChart u cnd w) = Some (fresh w)"
    and "parameterChart w = Some h \<Longrightarrow>
           h \<in> fst ` set (charts_on ''parameter-chart'' w) \<and>
           h \<notin> fst ` set (charts (createParameterComparisonChart_states u cnd w ! 1))"
proof -
  have second: "createParameterComparisonChart_states u cnd w ! 1 =
      (case parameterChart w of Some h \<Rightarrow> destroy h w | None \<Rightarrow> w)"
    by (simp add: createParameterComparisonChart_states_unfold Let_def)
  show "charts_on ''parameter-chart'' (createParameterComparisonChart_states u cnd w ! 1) = []"
    by (simp only: second parameter_released(1) [OF inv])
  show "charts_on ''parameter-chart'' (createParameterComparisonChart u cnd w) =
           [(fresh w, parameterChart_config u cnd)]"
    using parameter_released(1) [OF inv]
    by (simp add: createParameterComparisonChart_final charts_on_def parameterChart_config_def Let_def)
  show "parameterChart (createParameterComparisonChart u cnd w) = Some (fresh w)"
    by (simp add: createParameterComparisonChart_final)
  show "h \<in> fst ` set (charts_on ''parameter-chart'' w) \<and>
        h \<notin> fst ` set (charts (createParameterComparisonChart_states u cnd w ! 1))"
    if "parameterChart w = Some h"
    using global_live(2) [OF inv that] parameter_released(4) [OF inv that]
    by (simp only: second) simp
qed

text \<open>The window after the \<^verbatim>\<open>if\<close> statement of the range chart.\<close>

lemma range_released:
  assumes inv: "window_inv w"
  defines "w1 \<equiv> (case rangeChart w of Some h \<Rightarrow> destroy h w | None \<Rightarrow> w)"
  shows "charts_on ''range-chart'' w1 = []"
    and "canvas \<noteq> ''range-chart'' \<Longrightarrow> charts_on canvas w1 = charts_on canvas w"
    and "fresh w1 = fresh w"
    and "rangeChart w = Some h \<Longrightarrow> h \<notin> fst ` set (charts w1)"
proof -
  show "charts_on ''range-chart'' w1 = []"
  proof (cases "rangeChart w")
    case None
    have "charts_on ''range-chart'' w = []"
    proof (cases "charts_on ''range-chart'' w")
      case (Cons x xs)
      then have "x \<in> set (charts_on ''range-chart'' w)" by simp
      from canvas_owner(3) [OF inv this] None show ?thesis by simp
    qed simp
    with None show ?thesis by (simp add: w1_def)
  next
    case (Some h')
    have "\<forall>x \<in> set (charts_on ''range-chart'' w). fst x = h'"
      using canvas_owner(3) [OF inv] Some by auto
    then show ?thesis using Some by (simp add: w1_def destroy_own_canvas)
  qed
  show "charts_on canvas w1 = charts_on canvas w" if "canvas \<noteq> ''range-chart''"
  proof (cases "rangeChart w")
    case None
    then show ?thesis by (simp add: w1_def)
  next
    case (Some h')
    from global_live(3) [OF inv Some] obtain c where "(h', c) \<in> set (charts w)"
      and "ctx c = ''range-chart''" by (auto simp: charts_on_def)
    with destroy_other_canvas [OF inv, of h' c canvas] that Some show ?thesis
      by (simp add: w1_def)
  qed
  show "fresh w1 = fresh w"
    by (simp add: w1_def destroy_def split: option.splits)
  show "h \<notin> fst ` set (charts w1)" if "rangeChart w = Some h"
    using that by (auto simp: w1_def destroy_def)
qed


lemma createRangeChart_states_unfold:
  "createRangeChart_states n cnd w =
     (let w1 = (case rangeChart w of Some h \<Rightarrow> destroy h w | None \<Rightarrow> w);
          w2 = snd (new_Chart (rangeChart_config cnd) w1)
      in [w, w1, w2, w2\<lparr>rangeChart := Some (fresh w)\<rparr>])"
  by (simp add: createRangeChart_states_def Let_def new_Chart_def destroy_def
        split: option.splits)

lemma createRangeChart_final:
  "createRangeChart n cnd w =
     (case rangeChart w of Some h \<Rightarrow> destroy h w | None \<Rightarrow> w)
       \<lparr>charts := (fresh w, rangeChart_config cnd) #
           charts (case rangeChart w of Some h \<Rightarrow> destroy h w | None \<Rightarrow> w),
        fresh := Suc (fresh w), rangeChart := Some (fresh w)\<rparr>"
  by (simp add: createRangeChart_def createRangeChart_states_def Let_def new_Chart_def
        destroy_def split: option.splits)

lemma window_inv_createRangeChart:
  assumes inv: "window_inv w"
  shows "window_inv (createRangeChart n cnd w)"
proof -
  define w1 where "w1 = (case rangeChart w of Some h \<Rightarrow> destroy h w | None \<Rightarrow> w)"
  define w3 where "w3 = w1\<lparr>charts := (fresh w, rangeChart_config cnd) # charts w1,
    fresh := Suc (fresh w), rangeChart := Some (fresh w)\<rparr>"
  have final: "createRangeChart n cnd w = w3"
    by (simp only: createRangeChart_final w3_def w1_def)
  have sub: "set (charts w1) \<subseteq> set (charts w)"
    by (auto simp: w1_def destroy_def split: option.splits)
  have dist1: "distinct (map fst (charts w1))"
    using window_inv_distinct [OF inv]
    by (auto simp: w1_def destroy_def distinct_map_filter split: option.splits)
  have globals: "confidenceChart w1 = confidenceChart w" "parameterChart w1 = parameterChart w"
    by (simp_all add: w1_def destroy_def split: option.splits)
  have empty: "charts_on ''range-chart'' w1 = []"
    unfolding w1_def by (rule range_released(1) [OF inv])
  have other: "charts_on canvas w1 = charts_on canvas w" if "canvas \<noteq> ''range-chart''" for canvas
    unfolding w1_def by (rule range_released(2) [OF inv that])
  have on3: "charts_on canvas w3 =
      (if canvas = ''range-chart'' then [(fresh w, rangeChart_config cnd)]
       else charts_on canvas w)" for canvas
    using empty other [of canvas]
    by (auto simp: w3_def charts_on_def rangeChart_config_def Let_def)
  have below: "h < fresh w" if "(h, c) \<in> set (charts w1)" for h c
    using that sub window_inv_below_fresh [OF inv] by blast
  have "fresh w \<notin> fst ` set (charts w1)"
  proof
    assume "fresh w \<in> fst ` set (charts w1)"
    then obtain c where "(fresh w, c) \<in> set (charts w1)" by auto
    from below [OF this] show False by simp
  qed
  then have d3: "distinct (map fst (charts w3))"
    using dist1 by (simp add: w3_def)
  have owner3: "\<forall>(h, c) \<in> set (charts w3).
        h < fresh w3 \<and>
        (ctx c = ''confidence-chart'' \<and> confidenceChart w3 = Some h \<or>
         ctx c = ''parameter-chart'' \<and> parameterChart w3 = Some h \<or>
         ctx c = ''range-chart'' \<and> rangeChart w3 = Some h)"
  proof (intro ballI, clarify)
    fix h c assume hc: "(h, c) \<in> set (charts w3)"
    show "h < fresh w3 \<and>
        (ctx c = ''confidence-chart'' \<and> confidenceChart w3 = Some h \<or>
         ctx c = ''parameter-chart'' \<and> parameterChart w3 = Some h \<or>
         ctx c = ''range-chart'' \<and> rangeChart w3 = Some h)"
    proof (cases "(h, c) = (fresh w, rangeChart_config cnd)")
      case True
      then show ?thesis by (simp add: w3_def rangeChart_config_def Let_def)
    next
      case False
      with hc have in1: "(h, c) \<in> set (charts w1)" by (auto simp: w3_def)
      then have "ctx c \<noteq> ''range-chart''"
        using empty by (auto simp: charts_on_def filter_empty_conv)
      moreover from in1 sub have "(h, c) \<in> set (charts w)" by blast
      ultimately show ?thesis
        using window_inv_owner [OF inv, of h c] below [OF in1] globals
        by (auto simp: w3_def)
    qed
  qed
  have gc: "rangeChart w3 = Some (fresh w)" "confidenceChart w3 = confidenceChart w"
      "parameterChart w3 = parameterChart w"
    by (simp_all add: w3_def globals)
  have g1: "case confidenceChart w3 of None \<Rightarrow> True
            | Some h \<Rightarrow> h \<in> fst ` set (charts_on ''confidence-chart'' w3)"
    using global_live(1) [OF inv] by (auto simp: gc on3 split: option.splits)
  have g2: "case parameterChart w3 of None \<Rightarrow> True
            | Some h \<Rightarrow> h \<in> fst ` set (charts_on ''parameter-chart'' w3)"
    using global_live(2) [OF inv] by (auto simp: gc on3 split: option.splits)
  have g3: "case rangeChart w3 of None \<Rightarrow> True
            | Some h \<Rightarrow> h \<in> fst ` set (charts_on ''range-chart'' w3)"
    by (simp add: gc on3)
  from d3 owner3 g1 g2 g3 show ?thesis
    unfolding final window_inv_def by blast
qed


lemma createRangeChart_states_at_most_one:
  assumes inv: "window_inv w"
  shows "\<forall>w' \<in> set (createRangeChart_states n cnd w). length (charts_on canvas w') \<le> 1"
proof -
  define w1 where "w1 = (case rangeChart w of Some h \<Rightarrow> destroy h w | None \<Rightarrow> w)"
  define w2 where "w2 = snd (new_Chart (rangeChart_config cnd) w1)"
  have states: "createRangeChart_states n cnd w =
      [w, w1, w2, w2\<lparr>rangeChart := Some (fresh w)\<rparr>]"
    by (simp add: createRangeChart_states_unfold Let_def w1_def w2_def)
  have l0: "length (charts_on canvas w) \<le> 1"
    by (rule window_inv_at_most_one [OF inv])
  have on1: "charts_on canvas w1 =
      (if canvas = ''range-chart'' then [] else charts_on canvas w)"
    using range_released(1,2) [OF inv] by (simp add: w1_def)
  have on2: "charts_on canvas w2 =
      (if canvas = ''range-chart'' then [(fresh w1, rangeChart_config cnd)]
       else charts_on canvas w)"
    by (simp add: w2_def charts_on_new on1) (simp add: rangeChart_config_def Let_def)
  from l0 show ?thesis by (simp add: states on1 on2)
qed

lemma createRangeChart_effect:
  assumes inv: "window_inv w"
  shows "charts_on ''range-chart'' (createRangeChart_states n cnd w ! 1) = []"
    and "charts_on ''range-chart'' (createRangeChart n cnd w) =
           [(fresh w, rangeChart_config cnd)]"
    and "rangeChart (createRangeChart n cnd w) = Some (fresh w)"
    and "rangeChart w = Some h \<Longrightarrow>
           h \<in> fst ` set (charts_on ''range-chart'' w) \<and>
           h \<notin> fst ` set (charts (createRangeChart_states n cnd w ! 1))"
proof -
  have second: "createRangeChart_states n cnd w ! 1 =
      (case rangeChart w of Some h \<Rightarrow> destroy h w | None \<Rightarrow> w)"
    by (simp add: createRangeChart_states_unfold Let_def)
  show "charts_on ''range-chart'' (createRangeChart_states n cnd w ! 1) = []"
    by (simp only: second range_released(1) [OF inv])
  show "charts_on ''range-chart'' (createRangeChart n cnd w) =
           [(fresh w, rangeChart_config cnd)]"
    using range_released(1) [OF inv]
    by (simp add: createRangeChart_final charts_on_def rangeChart_config_def Let_def)
  show "rangeChart (createRangeChart n cnd w) = Some (fresh w)"
    by (simp add: createRangeChart_final)
  show "h \<in> fst ` set (charts_on ''range-chart'' w) \<and>
        h \<notin> fst ` set (charts (createRangeChart_states n cnd w ! 1))"
    if "rangeChart w = Some h"
    using global_live(3) [OF inv that] range_released(4) [OF inv that]
    by (simp only: second) simp
qed


lemma window_inv_redraw_step: "window_inv w \<Longrightarrow> window_inv (redraw_step r w)"
  by (cases r)
    (simp_all add: window_inv_createConfidenceChart window_inv_createParameterComparisonChart
      window_inv_createRangeChart)

lemma window_inv_run: "window_inv w \<Longrightarrow> window_inv (run rs w)"
  by (induction rs arbitrary: w) (simp_all add: window_inv_redraw_step)

lemma window_inv_reachable: "window_inv (run rs initial_window)"
  by (rule window_inv_run [OF window_inv_initial])

lemma redraw_states_at_most_one:
  assumes "window_inv w"
  shows "\<forall>w' \<in> set (redraw_states r w). length (charts_on canvas w') \<le> 1"
proof (cases r)
  case (Confidence s)
  with createConfidenceChart_states_at_most_one [OF assms, of s canvas]
  show ?thesis by simp
next
  case (Comparison u cnd)
  with createParameterComparisonChart_states_at_most_one [OF assms, of u cnd canvas]
  show ?thesis by simp
next
  case (Range n cnd)
  with createRangeChart_states_at_most_one [OF assms, of n cnd canvas]
  show ?thesis by simp
qed

lemma run_states_at_most_one:
  "window_inv w \<Longrightarrow> \<forall>w' \<in> set (run_states rs w). length (charts_on canvas w') \<le> 1"
proof (induction rs arbitrary: w)
  case Nil
  with window_inv_at_most_one [of w canvas] show ?case by simp
next
  case (Cons r rs)
  from Cons.prems have "window_inv (redraw_step r w)" by (rule window_inv_redraw_step)
  then have "\<forall>w' \<in> set (run_states rs (redraw_step r w)). length (charts_on canvas w') \<le> 1"
    by (rule Cons.IH)
  with redraw_states_at_most_one [OF Cons.prems, of r canvas] show ?case by auto
qed

text \<open>
  Claim C9.  At every moment of every sequence of redraws from the initial page, inside
  the calls as well as between them, each canvas carries at most one live chart.  Each of
  the three chart functions destroys before it creates: a chart its global refers to is
  alive on the canvas when the call starts and is no longer alive after the \<^verbatim>\<open>if\<close>
  statement, the canvas carries no chart at that point, and when the call returns the
  canvas carries exactly the new chart, under a fresh handle that the global now holds.
\<close>

theorem one_live_chart_per_canvas:
  "(\<forall>w' \<in> set (run_states rs initial_window). length (charts_on canvas w') \<le> 1)
   \<and> charts_on ''confidence-chart''
        (createConfidenceChart_states s (run rs initial_window) ! 1) = []
   \<and> charts_on ''confidence-chart'' (createConfidenceChart s (run rs initial_window)) =
        [(fresh (run rs initial_window), confidenceChart_config s)]
   \<and> confidenceChart (createConfidenceChart s (run rs initial_window)) =
        Some (fresh (run rs initial_window))
   \<and> (\<forall>h. confidenceChart (run rs initial_window) = Some h \<longrightarrow>
          h \<in> fst ` set (charts_on ''confidence-chart'' (run rs initial_window)) \<and>
          h \<notin> fst ` set (charts (createConfidenceChart_states s (run rs initial_window) ! 1)))
   \<and> charts_on ''parameter-chart''
        (createParameterComparisonChart_states u cnd (run rs initial_window) ! 1) = []
   \<and> charts_on ''parameter-chart''
        (createParameterComparisonChart u cnd (run rs initial_window)) =
        [(fresh (run rs initial_window), parameterChart_config u cnd)]
   \<and> parameterChart (createParameterComparisonChart u cnd (run rs initial_window)) =
        Some (fresh (run rs initial_window))
   \<and> (\<forall>h. parameterChart (run rs initial_window) = Some h \<longrightarrow>
          h \<in> fst ` set (charts_on ''parameter-chart'' (run rs initial_window)) \<and>
          h \<notin> fst ` set (charts
                  (createParameterComparisonChart_states u cnd (run rs initial_window) ! 1)))
   \<and> charts_on ''range-chart'' (createRangeChart_states n cnd (run rs initial_window) ! 1) = []
   \<and> charts_on ''range-chart'' (createRangeChart n cnd (run rs initial_window)) =
        [(fresh (run rs initial_window), rangeChart_config cnd)]
   \<and> rangeChart (createRangeChart n cnd (run rs initial_window)) =
        Some (fresh (run rs initial_window))
   \<and> (\<forall>h. rangeChart (run rs initial_window) = Some h \<longrightarrow>
          h \<in> fst ` set (charts_on ''range-chart'' (run rs initial_window)) \<and>
          h \<notin> fst ` set (charts (createRangeChart_states n cnd (run rs initial_window) ! 1)))"
proof -
  note inv = window_inv_reachable [of rs]
  note a = run_states_at_most_one [OF window_inv_initial, of rs canvas]
  note c = createConfidenceChart_effect [OF inv, where s = s]
  note p = createParameterComparisonChart_effect [OF inv, where u = u and cnd = cnd]
  note r = createRangeChart_effect [OF inv, where n = n and cnd = cnd]
  show ?thesis
    apply (intro conjI allI impI)
                     apply (rule a)
                    apply (rule c(1))
                   apply (rule c(2))
                  apply (rule c(3))
                 apply (erule c(4) [THEN conjunct1])
                apply (erule c(4) [THEN conjunct2])
               apply (rule p(1))
              apply (rule p(2))
             apply (rule p(3))
            apply (erule p(4) [THEN conjunct1])
           apply (erule p(4) [THEN conjunct2])
          apply (rule r(1))
         apply (rule r(2))
        apply (rule r(3))
       apply (erule r(4) [THEN conjunct1])
      apply (erule r(4) [THEN conjunct2])
    done
qed


lemma run_three:
  "confidenceChart (run three_redraws initial_window) = Some 0"
  "parameterChart (run three_redraws initial_window) = Some 1"
  "rangeChart (run three_redraws initial_window) = Some 2"
  by (simp_all add: three_redraws_def initial_window_def createConfidenceChart_final
        createParameterComparisonChart_final createRangeChart_final destroy_def)

theorem one_live_chart_per_canvas_witness:
  "confidenceChart (run three_redraws initial_window) = Some 0
   \<and> parameterChart (run three_redraws initial_window) = Some 1
   \<and> rangeChart (run three_redraws initial_window) = Some 2
   \<and> list_all (\<lambda>w'. length (charts_on ''range-chart'' w') \<le> 1)
        (run_states three_redraws initial_window)
   \<and> 0 \<in> fst ` set (charts_on ''confidence-chart'' (run three_redraws initial_window))
   \<and> 0 \<notin> fst ` set (charts
          (createConfidenceChart_states [] (run three_redraws initial_window) ! 1))
   \<and> 1 \<in> fst ` set (charts_on ''parameter-chart'' (run three_redraws initial_window))
   \<and> 1 \<notin> fst ` set (charts
          (createParameterComparisonChart_states (\<lambda>q. Fin 0) (nitrogen_conditions 0 70)
             (run three_redraws initial_window) ! 1))
   \<and> 2 \<in> fst ` set (charts_on ''range-chart'' (run three_redraws initial_window))
   \<and> 2 \<notin> fst ` set (charts
          (createRangeChart_states [] (nitrogen_conditions 0 70)
             (run three_redraws initial_window) ! 1))"
proof -
  note t = one_live_chart_per_canvas [where rs = three_redraws and canvas = "''range-chart''"
      and s = "[]" and u = "\<lambda>q. Fin 0" and cnd = "nitrogen_conditions 0 70" and n = "[]"]
  from t have "\<forall>w' \<in> set (run_states three_redraws initial_window).
      length (charts_on ''range-chart'' w') \<le> 1"
    by (rule conjunct1)
  then have "list_all (\<lambda>w'. length (charts_on ''range-chart'' w') \<le> 1)
        (run_states three_redraws initial_window)"
    by (simp only: list_all_iff)
  with t run_three show ?thesis by blast
qed

section \<open>Degenerate inputs\<close>

lemma length_insert_cmp: "length (insert_cmp cmp x xs) = Suc (length xs)"
  by (induction xs) simp_all

lemma length_array_sort: "length (array_sort cmp xs) = length xs"
  by (induction xs) (simp_all add: length_insert_cmp)

lemma length_combinedData: "length (combinedData s) = length s"
  by (simp add: combinedData_def Let_def length_array_sort Object_keys_def)

lemma length_topK: "length (topK s k) = min k (length s)"
  by (simp add: topK_def slice_def length_combinedData min.commute)

text \<open>
  Claim C6.  None of the three operations has an error branch: the source has no
  \<^verbatim>\<open>throw\<close>, and the arithmetic, the comparisons, \<^verbatim>\<open>sort\<close>, \<^verbatim>\<open>slice\<close> and the string functions
  it calls return a value for every number, so the functions of the model are total with
  results in the value types.  On the degenerate domain \<open>lo = hi\<close>, \<open>normalize\<close> returns
  \<open>+\<infinity>\<close>, \<open>-\<infinity>\<close> or \<open>NaN\<close> as the division by zero of IEEE-754 gives them, both components
  of \<open>normalizeInterval\<close> are one of these three, \<open>NaN\<close> passes through, and \<open>topK\<close>
  returns \<open>min k n\<close> items for every object of \<open>n\<close> entries, also an empty one and one with
  \<open>NaN\<close> scores.
\<close>

theorem no_error_degenerate:
  "normalize (Fin v) (Fin lo) (Fin lo) = (if lo < v then PInf else if v < lo then NInf else NaN)
   \<and> normalize (Fin v) (Fin lo) (Fin lo) \<in> {PInf, NInf, NaN}
   \<and> fst (normalizeInterval (Fin mn) (Fin mx) (Fin lo) (Fin lo)) \<in> {PInf, NInf, NaN}
   \<and> snd (normalizeInterval (Fin mn) (Fin mx) (Fin lo) (Fin lo)) \<in> {PInf, NInf, NaN}
   \<and> normalize NaN lo' hi' = NaN
   \<and> length (topK s k) = min k (length s)
   \<and> topK [] k = []
   \<and> topK [(''a'', NaN), (''b'', Fin 1)] 1 = [\<lparr>crop = ''A'', score = NaN\<rparr>]"
proof (intro conjI)
  show "topK [(''a'', NaN), (''b'', Fin 1)] 1 = [\<lparr>crop = ''A'', score = NaN\<rparr>]"
    by code_simp
  show "topK [] k = []"
    by (simp add: topK_def slice_def combinedData_def Object_keys_def)
  show "length (topK s k) = min k (length s)" by (rule length_topK)
qed (simp_all add: normalize_def normalizeInterval_normalize)

section \<open>What the datasets carry\<close>

lemma rangeChart_carries_interval:
  "datasets (rangeChart_config c) =
     [\<lparr>label = ''Parameter Range'',
       data = map (\<lambda>p. snd (normalizeInterval (min_p p) (max_p p)
                               (fst (totalRange p)) (snd (totalRange p)))) (parameters c),
       base = Some (map (\<lambda>p. fst (normalizeInterval (min_p p) (max_p p)
                               (fst (totalRange p)) (snd (totalRange p)))) (parameters c))\<rparr>]"
  by (simp add: rangeChart_config_def Let_def normalizeInterval_def range_entry_of_def)

text \<open>
  Claim C7.  The range chart hands both components of the interval to its dataset (the
  widths as \<^verbatim>\<open>data\<close>, the starts as \<^verbatim>\<open>base\<close>).  The comparison chart computes the start
  \<^verbatim>\<open>normalizedOptimalMin\<close> and hands over the widths only: the nitrogen intervals \<open>[0, 70]\<close>
  and \<open>[70, 140]\<close>, whose starts are \<open>0\<close> and \<open>50\<close>, give the same chart, with no \<^verbatim>\<open>base\<close> in
  either dataset, while the range chart of \<open>[70, 140]\<close> has the start \<open>50\<close> in its \<^verbatim>\<open>base\<close>.
\<close>

theorem comparison_chart_drops_offset:
  "fst (normalizeInterval (Fin 0) (Fin 70) (Fin 0) (Fin 140)) = Fin 0
   \<and> fst (normalizeInterval (Fin 70) (Fin 140) (Fin 0) (Fin 140)) = Fin 50
   \<and> parameterChart_config u (nitrogen_conditions 0 70) =
       parameterChart_config u (nitrogen_conditions 70 140)
   \<and> map base (datasets (parameterChart_config u (nitrogen_conditions 70 140))) = [None, None]
   \<and> map data (datasets (parameterChart_config u (nitrogen_conditions 70 140))) =
       [map (normalizedUserValues u) param_keys,
        [Fin 50, Fin 100, Fin 100, Fin 100, Fin 100, Fin 100, Fin 100]]
   \<and> map base (datasets (rangeChart_config (nitrogen_conditions 70 140))) =
       [Some [Fin 50, Fin 0, Fin 0, Fin 0, Fin 0, Fin 0, Fin 0]]
   \<and> map data (datasets (rangeChart_config (nitrogen_conditions 70 140))) =
       [[Fin 50, Fin 100, Fin 100, Fin 100, Fin 100, Fin 100, Fin 100]]"
  by (simp add: normalizeInterval_Fin parameterChart_config_def rangeChart_config_def
        nitrogen_conditions_def optimalRangeWidth_def param_keys_def normalize_Fin
        parameters_def range_entry_of_def Let_def)

section \<open>The best \<open>k\<close> entries\<close>

lemma combinedData_items:
  "combinedData s = array_sort (\<lambda>a b. score b - score a) (map item_of s)"
proof -
  have "map (\<lambda>(i, c). \<lparr>crop = c, score = map snd s ! i\<rparr>)
          (enumerate 0 (map capitalizeFirstLetter (map fst s))) = map item_of s"
    by (rule nth_equalityI) (simp_all add: nth_enumerate_eq item_of_def)
  then show ?thesis
    by (simp add: combinedData_def Let_def Object_keys_def Object_values_def)
qed

lemma cmp_positive_iff:
  assumes "isFinite (score x)" and "isFinite (score y)"
  shows "num_less (Fin 0) (score y - score x) \<longleftrightarrow> \<not> score_key x \<le> score_key y"
proof -
  from assms obtain a b where "score x = Fin a" and "score y = Fin b"
    by (cases "score x"; cases "score y") simp_all
  then show ?thesis by (auto simp: score_key_def)
qed

lemma insert_cmp_insort_key:
  assumes "isFinite (score x)" and "\<forall>y \<in> set ys. isFinite (score y)"
  shows "insert_cmp (\<lambda>a b. score b - score a) x ys = insort_key score_key x ys"
  using assms(2)
  by (induction ys) (simp_all add: cmp_positive_iff [OF assms(1)])

lemma array_sort_sort_key:
  assumes "\<forall>y \<in> set xs. isFinite (score y)"
  shows "array_sort (\<lambda>a b. score b - score a) xs = sort_key score_key xs"
  using assms
  by (induction xs) (simp_all add: insert_cmp_insort_key)

lemma topK_sort_key:
  assumes "\<forall>e \<in> set s. isFinite (snd e)"
  shows "topK s k = take k (sort_key score_key (map item_of s))"
proof -
  from assms have "\<forall>y \<in> set (map item_of s). isFinite (score y)"
    by (simp add: item_of_def)
  then show ?thesis
    by (simp add: topK_def slice_def combinedData_items array_sort_sort_key)
qed

lemma score_key_le_iff:
  assumes "isFinite (score a)" and "isFinite (score b)"
  shows "score_key a \<le> score_key b \<longleftrightarrow> num_le (score b) (score a)"
proof -
  from assms obtain x y where "score a = Fin x" and "score b = Fin y"
    by (cases "score a"; cases "score b") simp_all
  then show ?thesis by (simp add: score_key_def)
qed

lemma descending_iff_sorted:
  assumes "\<forall>e \<in> set xs. isFinite (score e)"
  shows "descending xs \<longleftrightarrow> sorted (map score_key xs)"
  using assms
  by (induction xs) (auto simp: descending_def score_key_le_iff)

lemma filter_score_via_key:
  "filter (\<lambda>e. score e = v) xs =
     filter (\<lambda>e. score e = v) (filter (\<lambda>e. score_key e = - real_of_jsnum v) xs)"
  by (induction xs) (auto simp: score_key_def)

lemma sort_key_stable_score:
  "filter (\<lambda>e. score e = v) (sort_key score_key xs) = filter (\<lambda>e. score e = v) xs"
proof -
  have "filter (\<lambda>e. score e = v) (sort_key score_key xs) =
        filter (\<lambda>e. score e = v)
          (filter (\<lambda>e. score_key e = - real_of_jsnum v) (sort_key score_key xs))"
    by (rule filter_score_via_key)
  also have "\<dots> = filter (\<lambda>e. score e = v)
          (filter (\<lambda>e. score_key e = - real_of_jsnum v) xs)"
    by (simp only: sort_key_stable)
  also have "\<dots> = filter (\<lambda>e. score e = v) xs"
    by (rule filter_score_via_key [symmetric])
  finally show ?thesis .
qed

text \<open>
  Claim C4, as the code has it.  For an object of \<open>n\<close> entries with finite scores,
  \<open>topK\<close> returns \<open>min k n\<close> items, in descending order of score; they are entries of the
  object with the label passed through \<^verbatim>\<open>capitalizeFirstLetter\<close>; no entry left out has a
  higher score than one returned; and for every score the items returned with it are
  the first ones of the object with that score, in the object's order (the sort is
  stable).  For \<open>{wheat: 90, rice: 85, maize: 95}\<close> and \<open>k = 2\<close> the result is
  \<open>(Maize, 95), (Wheat, 90)\<close>, and \<open>{a: 50, b: 50}\<close> keeps its order.
\<close>

theorem topK_capitalised:
  assumes fin: "\<forall>e \<in> set s. isFinite (snd e)"
  shows "length (topK s k) = min k (length s)
       \<and> descending (topK s k)
       \<and> mset (topK s k) \<subseteq># mset (map item_of s)
       \<and> (\<forall>a \<in> set (topK s k). \<forall>b \<in># mset (map item_of s) - mset (topK s k).
             num_le (score b) (score a))
       \<and> (\<forall>v. prefix (filter (\<lambda>e. score e = v) (topK s k))
                        (filter (\<lambda>e. score e = v) (map item_of s)))
       \<and> topK [(''wheat'', Fin 90), (''rice'', Fin 85), (''maize'', Fin 95)] 2 =
           [\<lparr>crop = ''Maize'', score = Fin 95\<rparr>, \<lparr>crop = ''Wheat'', score = Fin 90\<rparr>]
       \<and> topK [(''a'', Fin 50), (''b'', Fin 50)] 2 =
           [\<lparr>crop = ''A'', score = Fin 50\<rparr>, \<lparr>crop = ''B'', score = Fin 50\<rparr>]"
proof -
  let ?items = "map item_of s"
  let ?L = "sort_key score_key ?items"
  have top: "topK s k = take k ?L" by (rule topK_sort_key [OF fin])
  have finL: "\<forall>e \<in> set ?L. isFinite (score e)"
    using fin by (simp add: item_of_def)
  have split: "?L = take k ?L @ drop k ?L" by simp
  have sortedL: "sorted (map score_key ?L)" by (rule sorted_sort_key)
  have c1: "length (topK s k) = min k (length s)" by (rule length_topK)
  have "sorted (map score_key (take k ?L))"
    using sortedL by (simp add: take_map [symmetric] sorted_wrt_take)
  moreover have "\<forall>e \<in> set (take k ?L). isFinite (score e)"
    using finL by (meson in_set_takeD)
  ultimately have c2: "descending (topK s k)"
    by (simp add: top descending_iff_sorted)
  have msetL: "mset ?L = mset (take k ?L) + mset (drop k ?L)"
    by (metis split mset_append)
  have c3: "mset (topK s k) \<subseteq># mset ?items"
    using msetL by (simp add: top)
  have rest: "mset ?items - mset (topK s k) = mset (drop k ?L)"
    using msetL by (simp add: top)
  have c4: "\<forall>a \<in> set (topK s k). \<forall>b \<in># mset ?items - mset (topK s k).
              num_le (score b) (score a)"
  proof (intro ballI)
    fix a b
    assume a: "a \<in> set (topK s k)" and b: "b \<in># mset ?items - mset (topK s k)"
    from a have a': "a \<in> set (take k ?L)" by (simp add: top)
    from b have "b \<in># mset (drop k ?L)" by (simp only: rest)
    then have b': "b \<in> set (drop k ?L)" by simp
    have "sorted (map score_key (take k ?L) @ map score_key (drop k ?L))"
      using sortedL by (simp add: map_append [symmetric])
    then have "score_key a \<le> score_key b"
      using a' b' by (auto simp: sorted_append)
    moreover have "isFinite (score a)" using a' finL by (meson in_set_takeD)
    moreover have "isFinite (score b)" using b' finL by (meson in_set_dropD)
    ultimately show "num_le (score b) (score a)" by (simp add: score_key_le_iff)
  qed
  have c5: "\<forall>v. prefix (filter (\<lambda>e. score e = v) (topK s k))
                        (filter (\<lambda>e. score e = v) ?items)"
  proof
    fix v
    have "filter (\<lambda>e. score e = v) ?items = filter (\<lambda>e. score e = v) ?L"
      by (rule sort_key_stable_score [symmetric])
    also have "\<dots> = filter (\<lambda>e. score e = v) (take k ?L) @ filter (\<lambda>e. score e = v) (drop k ?L)"
      by (metis split filter_append)
    finally show "prefix (filter (\<lambda>e. score e = v) (topK s k)) (filter (\<lambda>e. score e = v) ?items)"
      by (simp add: top)
  qed
  have c6: "topK [(''wheat'', Fin 90), (''rice'', Fin 85), (''maize'', Fin 95)] 2 =
           [\<lparr>crop = ''Maize'', score = Fin 95\<rparr>, \<lparr>crop = ''Wheat'', score = Fin 90\<rparr>]"
    by code_simp
  have c7: "topK [(''a'', Fin 50), (''b'', Fin 50)] 2 =
           [\<lparr>crop = ''A'', score = Fin 50\<rparr>, \<lparr>crop = ''B'', score = Fin 50\<rparr>]"
    by code_simp
  from c1 c2 c3 c4 c5 c6 c7 show ?thesis by blast
qed

theorem topK_capitalised_witness:
  "list_all (\<lambda>e. isFinite (snd e)) [(''a'', Fin 50), (''b'', Fin 50), (''c'', Fin 60)]
   \<and> length (topK [(''a'', Fin 50), (''b'', Fin 50), (''c'', Fin 60)] 2) =
       min 2 (length [(''a'', Fin 50), (''b'', Fin 50), (''c'', Fin 60)])
   \<and> descending (topK [(''a'', Fin 50), (''b'', Fin 50), (''c'', Fin 60)] 2)
   \<and> mset (topK [(''a'', Fin 50), (''b'', Fin 50), (''c'', Fin 60)] 2) \<subseteq>#
       mset (map item_of [(''a'', Fin 50), (''b'', Fin 50), (''c'', Fin 60)])
   \<and> prefix (filter (\<lambda>e. score e = Fin 50) (topK [(''a'', Fin 50), (''b'', Fin 50), (''c'', Fin 60)] 2))
             (filter (\<lambda>e. score e = Fin 50)
                (map item_of [(''a'', Fin 50), (''b'', Fin 50), (''c'', Fin 60)]))"
proof -
  have h: "\<forall>e \<in> set [(''a'', Fin 50), (''b'', Fin 50), (''c'', Fin 60)]. isFinite (snd e)"
    by simp
  have "list_all (\<lambda>e. isFinite (snd e)) [(''a'', Fin 50), (''b'', Fin 50), (''c'', Fin 60)]"
    by simp
  with topK_capitalised [OF h, of 2] show ?thesis by blast
qed

text \<open>
  The labels of the result are not those of the object: the result for
  \<open>{wheat: 90, rice: 85, maize: 95}\<close> and \<open>k = 2\<close> is not \<open>(maize, 95), (wheat, 90)\<close>.
\<close>

theorem topK_lowercase_counterexample:
  "map entry_of (topK [(''wheat'', Fin 90), (''rice'', Fin 85), (''maize'', Fin 95)] 2) \<noteq>
     [(''maize'', Fin 95), (''wheat'', Fin 90)]"
  by code_simp

section \<open>Capitalising twice\<close>

lemma toUpperCase_char_code:
  assumes "97 \<le> (of_char c :: nat)" and "(of_char c :: nat) \<le> 122"
  shows "(of_char (toUpperCase_char c) :: nat) = of_char c - 32"
proof -
  have "(of_char c - 32 :: nat) < 256" using assms by simp
  then have "(of_char c - 32 :: nat) mod 256 = of_char c - 32" by simp
  then show ?thesis using assms by (simp add: toUpperCase_char_def Let_def)
qed

lemma toUpperCase_char_other:
  "\<not> (97 \<le> (of_char c :: nat) \<and> (of_char c :: nat) \<le> 122) \<Longrightarrow> toUpperCase_char c = c"
  by (auto simp: toUpperCase_char_def Let_def)

lemma toUpperCase_char_idem [simp]:
  "toUpperCase_char (toUpperCase_char c) = toUpperCase_char c"
proof (cases "97 \<le> (of_char c :: nat) \<and> (of_char c :: nat) \<le> 122")
  case True
  then have "(of_char (toUpperCase_char c) :: nat) = of_char c - 32"
    by (simp add: toUpperCase_char_code)
  with True have "\<not> (97 \<le> (of_char (toUpperCase_char c) :: nat)
                    \<and> (of_char (toUpperCase_char c) :: nat) \<le> 122)"
    by arith
  then show ?thesis by (rule toUpperCase_char_other)
next
  case False
  then show ?thesis by (simp add: toUpperCase_char_other)
qed

lemma toUpperCase_char_space [simp]:
  "toUpperCase_char c = CHR '' '' \<longleftrightarrow> c = CHR '' ''"
proof (cases "97 \<le> (of_char c :: nat) \<and> (of_char c :: nat) \<le> 122")
  case True
  then have code: "(of_char (toUpperCase_char c) :: nat) = of_char c - 32"
    by (simp add: toUpperCase_char_code)
  have "toUpperCase_char c \<noteq> CHR '' ''"
  proof
    assume "toUpperCase_char c = CHR '' ''"
    then have "(of_char (toUpperCase_char c) :: nat) = 32" by simp
    with code True show False by arith
  qed
  moreover have "c \<noteq> CHR '' ''" using True by auto
  ultimately show ?thesis by simp
next
  case False
  then show ?thesis by (simp add: toUpperCase_char_other)
qed

lemma capitalize_word_simps [simp]:
  "capitalize_word [] = []"
  "capitalize_word (c # cs) = toUpperCase_char c # cs"
  by (simp_all add: capitalize_word_def toUpperCase_def charAt_def slice_from_def)

lemma capitalize_word_idem [simp]: "capitalize_word (capitalize_word w) = capitalize_word w"
  by (cases w) simp_all

lemma capitalize_word_space [simp]:
  "CHR '' '' \<in> set (capitalize_word w) \<longleftrightarrow> CHR '' '' \<in> set w"
proof (cases w)
  case Nil
  then show ?thesis by simp
next
  case (Cons a cs)
  have "(CHR '' '' = toUpperCase_char a) = (CHR '' '' = a)"
    using toUpperCase_char_space [of a] by (simp add: eq_commute)
  with Cons show ?thesis by simp
qed

lemma capitalizeFirstLetter_words:
  "capitalizeFirstLetter str = join_str (map capitalize_word (split_str str CHR '' '')) '' ''"
  by (simp only: capitalizeFirstLetter_def capitalize_word_def [abs_def])

lemma split_str_nonempty [simp]: "split_str str sep \<noteq> []"
  by (induction str) (auto split: list.splits)

lemma split_str_no_sep: "w \<in> set (split_str str sep) \<Longrightarrow> sep \<notin> set w"
  by (induction str arbitrary: w) (auto split: list.splits if_splits)

lemma split_str_append:
  "sep \<notin> set w \<Longrightarrow> split_str (w @ sep # rest) sep = w # split_str rest sep"
  by (induction w) (auto split: list.splits)

lemma split_str_word: "sep \<notin> set w \<Longrightarrow> split_str w sep = [w]"
  by (induction w) (auto split: list.splits)

lemma split_join:
  "ws \<noteq> [] \<Longrightarrow> \<forall>w \<in> set ws. sep \<notin> set w \<Longrightarrow> split_str (join_str ws [sep]) sep = ws"
  by (induction ws "[sep]" rule: join_str.induct) (simp_all add: split_str_word split_str_append)

lemma capitalizeFirstLetter_idem [simp]:
  "capitalizeFirstLetter (capitalizeFirstLetter str) = capitalizeFirstLetter str"
proof -
  let ?ws = "map capitalize_word (split_str str CHR '' '')"
  have "?ws \<noteq> []" by simp
  moreover have "\<forall>w \<in> set ?ws. CHR '' '' \<notin> set w"
    by (auto dest: split_str_no_sep)
  ultimately have "split_str (join_str ?ws '' '') CHR '' '' = ?ws"
    by (rule split_join)
  then show ?thesis
    by (simp add: capitalizeFirstLetter_words comp_def)
qed

lemma item_of_entry_of:
  "capitalizeFirstLetter (crop i) = crop i \<Longrightarrow> item_of (entry_of i) = i"
  by (simp add: item_of_def entry_of_def)

lemma entry_of_item_of:
  "capitalizeFirstLetter (fst e) = fst e \<Longrightarrow> entry_of (item_of e) = e"
  by (simp add: item_of_def entry_of_def)

lemma descending_items:
  "descending (map item_of s) \<longleftrightarrow> sorted_wrt (\<lambda>a b. num_le (snd b) (snd a)) s"
  by (simp add: descending_def sorted_wrt_map item_of_def)

lemma distinct_crop_topK:
  assumes fin: "\<forall>e \<in> set s. isFinite (snd e)"
    and d: "distinct (map capitalizeFirstLetter (Object_keys s))"
  shows "is_object (map entry_of (topK s k))"
proof -
  let ?L = "sort_key score_key (map item_of s)"
  have "mset (map crop ?L) = mset (map crop (map item_of s))"
    by (simp only: mset_map mset_sort)
  moreover have "map crop (map item_of s) = map capitalizeFirstLetter (Object_keys s)"
    by (simp add: item_of_def Object_keys_def)
  ultimately have "distinct (map crop ?L)"
    using d by (metis mset_eq_imp_distinct_iff)
  then have "distinct (take k (map crop ?L))" by (rule distinct_take)
  then have "distinct (map crop (take k ?L))" by (simp only: take_map)
  moreover have "map fst (map entry_of (take k ?L)) = map crop (take k ?L)"
    by (simp add: entry_of_def)
  ultimately show ?thesis
    by (simp only: is_object_def topK_sort_key [OF fin])
qed

text \<open>
  Claim C8, as the code has it.  For an object with finite scores whose labels stay
  distinct when capitalised, the result of \<open>topK\<close>, read back as entries, is an object
  again and \<open>topK\<close> returns it as it is; and an object that is already in descending
  order, has at most \<open>k\<close> entries and whose labels \<^verbatim>\<open>capitalizeFirstLetter\<close> leaves as they
  are is returned unchanged.
\<close>

theorem topK_idempotent:
  assumes obj: "is_object s" and fin: "\<forall>e \<in> set s. isFinite (snd e)"
  shows "(distinct (map capitalizeFirstLetter (Object_keys s))
          \<longrightarrow> is_object (map entry_of (topK s k))
              \<and> topK (map entry_of (topK s k)) k = topK s k)
       \<and> (sorted_wrt (\<lambda>a b. num_le (snd b) (snd a)) s \<and> length s \<le> k
            \<and> (\<forall>e \<in> set s. capitalizeFirstLetter (fst e) = fst e)
          \<longrightarrow> map entry_of (topK s k) = s)"
proof (intro conjI impI)
  assume "distinct (map capitalizeFirstLetter (Object_keys s))"
  then show "is_object (map entry_of (topK s k))"
    by (rule distinct_crop_topK [OF fin])
next
  let ?L = "sort_key score_key (map item_of s)"
  let ?T = "take k ?L"
  have top: "topK s k = ?T" by (rule topK_sort_key [OF fin])
  have inT: "\<forall>i \<in> set ?T. \<exists>e \<in> set s. i = item_of e"
  proof
    fix i assume "i \<in> set ?T"
    then have "i \<in> set ?L" by (rule in_set_takeD)
    then show "\<exists>e \<in> set s. i = item_of e" by auto
  qed
  have finT: "\<forall>e \<in> set (map entry_of ?T). isFinite (snd e)"
  proof
    fix e assume "e \<in> set (map entry_of ?T)"
    then obtain i where i: "i \<in> set ?T" and e: "e = entry_of i" by auto
    from inT i obtain e' where "e' \<in> set s" and "i = item_of e'" by blast
    with fin e show "isFinite (snd e)" by (simp add: entry_of_def item_of_def)
  qed
  have "\<forall>i \<in> set ?T. item_of (entry_of i) = i"
  proof
    fix i assume "i \<in> set ?T"
    with inT obtain e where "i = item_of e" by blast
    then have "capitalizeFirstLetter (crop i) = crop i" by (simp add: item_of_def)
    then show "item_of (entry_of i) = i" by (rule item_of_entry_of)
  qed
  then have roundtrip: "map item_of (map entry_of ?T) = ?T"
    by (simp add: map_idI)
  have "sorted (map score_key ?T)"
    using sorted_sort_key [of score_key "map item_of s"]
    by (simp add: take_map [symmetric] sorted_wrt_take)
  then have id: "sort_key score_key ?T = ?T" by (rule sort_key_id_if_sorted)
  have "topK (map entry_of ?T) k = take k (sort_key score_key (map item_of (map entry_of ?T)))"
    by (rule topK_sort_key [OF finT])
  also have "\<dots> = take k ?T" by (simp only: roundtrip id)
  also have "\<dots> = ?T" by simp
  finally show "topK (map entry_of (topK s k)) k = topK s k" by (simp only: top)
next
  assume a: "sorted_wrt (\<lambda>a b. num_le (snd b) (snd a)) s \<and> length s \<le> k
            \<and> (\<forall>e \<in> set s. capitalizeFirstLetter (fst e) = fst e)"
  have finI: "\<forall>e \<in> set (map item_of s). isFinite (score e)"
    using fin by (simp add: item_of_def)
  from a have "descending (map item_of s)" by (simp add: descending_items)
  then have "sorted (map score_key (map item_of s))"
    by (simp only: descending_iff_sorted [OF finI])
  then have "sort_key score_key (map item_of s) = map item_of s"
    by (rule sort_key_id_if_sorted)
  then have "topK s k = take k (map item_of s)"
    by (simp add: topK_sort_key [OF fin])
  with a have "topK s k = map item_of s" by simp
  then have "map entry_of (topK s k) = map (\<lambda>e. entry_of (item_of e)) s" by simp
  also have "\<dots> = s" using a by (simp add: entry_of_item_of map_idI)
  finally show "map entry_of (topK s k) = s" .
qed

theorem topK_idempotent_witness:
  "is_object [(''Maize'', Fin 95), (''Wheat'', Fin 90)]
   \<and> list_all (\<lambda>e. isFinite (snd e)) [(''Maize'', Fin 95), (''Wheat'', Fin 90)]
   \<and> distinct (map capitalizeFirstLetter (Object_keys [(''Maize'', Fin 95), (''Wheat'', Fin 90)]))
   \<and> sorted_wrt (\<lambda>a b. num_le (snd b) (snd a)) [(''Maize'', Fin 95), (''Wheat'', Fin 90)]
   \<and> length [(''Maize'', Fin 95), (''Wheat'', Fin 90)] \<le> 5
   \<and> list_all (\<lambda>e. capitalizeFirstLetter (fst e) = fst e)
        [(''Maize'', Fin 95), (''Wheat'', Fin 90)]
   \<and> is_object (map entry_of (topK [(''Maize'', Fin 95), (''Wheat'', Fin 90)] 5))
   \<and> map entry_of (topK [(''Maize'', Fin 95), (''Wheat'', Fin 90)] 5) =
       [(''Maize'', Fin 95), (''Wheat'', Fin 90)]
   \<and> topK (map entry_of (topK [(''Maize'', Fin 95), (''Wheat'', Fin 90)] 5)) 5 =
       topK [(''Maize'', Fin 95), (''Wheat'', Fin 90)] 5"
proof -
  have o: "is_object [(''Maize'', Fin 95), (''Wheat'', Fin 90)]"
    by (simp add: is_object_def)
  have h: "\<forall>e \<in> set [(''Maize'', Fin 95), (''Wheat'', Fin 90)]. isFinite (snd e)"
    by simp
  have c: "capitalizeFirstLetter ''Maize'' = ''Maize''" "capitalizeFirstLetter ''Wheat'' = ''Wheat''"
    by code_simp+
  have d: "distinct (map capitalizeFirstLetter
             (Object_keys [(''Maize'', Fin 95), (''Wheat'', Fin 90)]))"
    using c by (simp add: Object_keys_def)
  have p: "sorted_wrt (\<lambda>a b. num_le (snd b) (snd a)) [(''Maize'', Fin 95), (''Wheat'', Fin 90)]
           \<and> length [(''Maize'', Fin 95), (''Wheat'', Fin 90)] \<le> 5
           \<and> (\<forall>e \<in> set [(''Maize'', Fin 95), (''Wheat'', Fin 90)].
                 capitalizeFirstLetter (fst e) = fst e)"
    using c by simp
  have l: "list_all (\<lambda>e. isFinite (snd e)) [(''Maize'', Fin 95), (''Wheat'', Fin 90)]"
      "list_all (\<lambda>e. capitalizeFirstLetter (fst e) = fst e)
        [(''Maize'', Fin 95), (''Wheat'', Fin 90)]"
    using c by simp_all
  from topK_idempotent [OF o h, of 5] o d p l show ?thesis by blast
qed

text \<open>
  Without the condition on the labels the object is not returned unchanged: the object
  with the single entry \<open>(rice, 90)\<close> is in descending order and no longer than five, and
  comes back as \<open>(Rice, 90)\<close>.
\<close>

theorem topK_unchanged_counterexample:
  "is_object [(''rice'', Fin 90)]
   \<and> sorted_wrt (\<lambda>a b. num_le (snd b) (snd a)) [(''rice'', Fin 90)]
   \<and> length [(''rice'', Fin 90)] \<le> 5
   \<and> map entry_of (topK [(''rice'', Fin 90)] 5) = [(''Rice'', Fin 90)]
   \<and> map entry_of (topK [(''rice'', Fin 90)] 5) \<noteq> [(''rice'', Fin 90)]"
  by code_simp

section \<open>Properties of rounding\<close>

lemma rhe_of_int [simp]: "round_half_even (of_int n) = n"
  by (simp add: round_half_even_def)

lemma rhe_bounds: "of_int (round_half_even x) - 1 / 2 \<le> x \<and> x \<le> of_int (round_half_even x) + 1 / 2"
  unfolding round_half_even_def Let_def by (auto; linarith)

lemma rhe_error: "\<bar>of_int (round_half_even x) - x\<bar> \<le> 1 / 2"
  using rhe_bounds [of x] by linarith

lemma rhe_cases: "round_half_even x = \<lfloor>x\<rfloor> \<or> round_half_even x = \<lfloor>x\<rfloor> + 1"
  unfolding round_half_even_def Let_def by auto

lemma rhe_mono: "x \<le> y \<Longrightarrow> round_half_even x \<le> round_half_even y"
proof -
  assume xy: "x \<le> y"
  have fl: "\<lfloor>x\<rfloor> \<le> \<lfloor>y\<rfloor>" using xy by (rule floor_mono)
  show ?thesis
  proof (cases "\<lfloor>x\<rfloor> = \<lfloor>y\<rfloor>")
    case True
    then have "x - of_int \<lfloor>x\<rfloor> \<le> y - of_int \<lfloor>y\<rfloor>" using xy by simp
    then show ?thesis unfolding round_half_even_def Let_def True by auto
  next
    case False
    with fl have "\<lfloor>x\<rfloor> + 1 \<le> \<lfloor>y\<rfloor>" by simp
    moreover have "round_half_even x \<le> \<lfloor>x\<rfloor> + 1" using rhe_cases [of x] by auto
    moreover have "\<lfloor>y\<rfloor> \<le> round_half_even y" using rhe_cases [of y] by auto
    ultimately show ?thesis by linarith
  qed
qed


lemma round_pos_base:
  "x < 2 / 2 ^ 1022 \<Longrightarrow> round_pos x = of_int (round_half_even (x * 2 ^ 1074)) / 2 ^ 1074"
  by (subst round_pos.simps) simp

lemma round_pos_step: "2 / 2 ^ 1022 \<le> x \<Longrightarrow> round_pos x = 2 * round_pos (x / 2)"
  by (subst round_pos.simps) simp

lemma rhe_zero [simp]: "round_half_even 0 = 0"
  by (simp add: round_half_even_def)

lemma round_pos_zero [simp]: "round_pos 0 = 0"
  by (simp add: round_pos_base)

lemma threshold_scaled: "(2::real) / 2 ^ 1022 * 2 ^ 1074 = 2 ^ 53"
  by simp

lemma round_pos_base_upper:
  assumes "x < 2 / 2 ^ 1022"
  shows "round_pos x \<le> 2 / 2 ^ 1022"
proof -
  have "x * 2 ^ 1074 \<le> 2 ^ 53"
    using assms threshold_scaled by (simp add: field_simps)
  then have "round_half_even (x * 2 ^ 1074) \<le> round_half_even (of_int (2 ^ 53))"
    by (intro rhe_mono) simp
  then have "round_half_even (x * 2 ^ 1074) \<le> 2 ^ 53" by (simp only: rhe_of_int)
  then have "(of_int (round_half_even (x * 2 ^ 1074)) :: real) \<le> 2 ^ 53"
    by (metis of_int_le_iff of_int_numeral of_int_power)
  then show ?thesis
    by (simp add: round_pos_base [OF assms] field_simps)
qed

lemma round_pos_base_lower:
  assumes "1 / 2 ^ 1022 \<le> x" and "x < 2 / 2 ^ 1022"
  shows "1 / 2 ^ 1022 \<le> round_pos x"
proof -
  have "2 ^ 52 \<le> x * 2 ^ 1074"
    using assms(1) by (simp add: field_simps)
  then have "round_half_even (of_int (2 ^ 52)) \<le> round_half_even (x * 2 ^ 1074)"
    by (intro rhe_mono) simp
  then have "2 ^ 52 \<le> round_half_even (x * 2 ^ 1074)" by (simp only: rhe_of_int)
  then have "(2 ^ 52 :: real) \<le> of_int (round_half_even (x * 2 ^ 1074))"
    by (metis of_int_le_iff of_int_numeral of_int_power)
  then show ?thesis
    by (simp add: round_pos_base [OF assms(2)] field_simps)
qed

lemma round_pos_lower: "2 / 2 ^ 1022 \<le> x \<Longrightarrow> 2 / 2 ^ 1022 \<le> round_pos x"
proof (induction x rule: round_pos.induct)
  case (1 x)
  show ?case
  proof (cases "x / 2 < 2 / 2 ^ 1022")
    case True
    from "1.prems" have "1 / 2 ^ 1022 \<le> x / 2" by simp
    from round_pos_base_lower [OF this True] show ?thesis
      by (simp add: round_pos_step [OF "1.prems"])
  next
    case False
    then have "2 / 2 ^ 1022 \<le> x / 2" by simp
    with "1.IH" "1.prems" have "2 / 2 ^ 1022 \<le> round_pos (x / 2)" by simp
    then show ?thesis by (simp add: round_pos_step [OF "1.prems"])
  qed
qed

lemma round_pos_mono: "x \<le> y \<Longrightarrow> round_pos x \<le> round_pos y"
proof (induction x arbitrary: y rule: round_pos.induct)
  case (1 x)
  show ?case
  proof (cases "x < 2 / 2 ^ 1022")
    case True
    show ?thesis
    proof (cases "y < 2 / 2 ^ 1022")
      case yb: True
      from "1.prems" have "round_half_even (x * 2 ^ 1074) \<le> round_half_even (y * 2 ^ 1074)"
        by (intro rhe_mono) simp
      then show ?thesis
        by (simp add: round_pos_base [OF True] round_pos_base [OF yb] divide_right_mono)
    next
      case False
      then have "2 / 2 ^ 1022 \<le> round_pos y" by (intro round_pos_lower) simp
      with round_pos_base_upper [OF True] show ?thesis by linarith
    qed
  next
    case False
    then have x: "2 / 2 ^ 1022 \<le> x" by simp
    with "1.prems" have y: "2 / 2 ^ 1022 \<le> y" by linarith
    from "1.prems" have "x / 2 \<le> y / 2" by simp
    with "1.IH" False have "round_pos (x / 2) \<le> round_pos (y / 2)" by blast
    then show ?thesis by (simp add: round_pos_step [OF x] round_pos_step [OF y])
  qed
qed

lemma round_pos_nonneg: "0 \<le> x \<Longrightarrow> 0 \<le> round_pos x"
  using round_pos_mono [of 0 x] by simp

lemma round_pos_grid: "\<exists>k::int. round_pos x = of_int k / 2 ^ 1074"
proof (induction x rule: round_pos.induct)
  case (1 x)
  show ?case
  proof (cases "x < 2 / 2 ^ 1022")
    case True
    then show ?thesis by (auto simp: round_pos_base)
  next
    case False
    with "1.IH" obtain k :: int where "round_pos (x / 2) = of_int k / 2 ^ 1074" by blast
    then have "round_pos x = of_int (2 * k) / 2 ^ 1074"
      using False by (simp add: round_pos_step)
    then show ?thesis by blast
  qed
qed

lemma abs_scaled:
  fixes a x K :: real
  assumes "0 < K"
  shows "\<bar>a / K - x\<bar> = \<bar>a - x * K\<bar> / K"
proof -
  have "a / K - x = (a - x * K) / K" using assms by (simp add: field_simps)
  then show ?thesis using assms by (simp add: abs_divide del: divide_diff_eq_iff diff_divide_eq_iff)
qed

lemma round_pos_error_small: "x < 2 / 2 ^ 1022 \<Longrightarrow> \<bar>round_pos x - x\<bar> \<le> 1 / 2 ^ 1075"
proof -
  assume b: "x < 2 / 2 ^ 1022"
  have "\<bar>round_pos x - x\<bar> =
      \<bar>of_int (round_half_even (x * 2 ^ 1074)) - x * 2 ^ 1074\<bar> / 2 ^ 1074"
    unfolding round_pos_base [OF b] by (rule abs_scaled) simp
  also have "\<dots> \<le> (1 / 2) / 2 ^ 1074"
    by (intro divide_right_mono rhe_error) simp
  also have "\<dots> = 1 / 2 ^ 1075" by simp
  finally show ?thesis .
qed

lemma round_pos_error: "1 / 2 ^ 1022 \<le> x \<Longrightarrow> \<bar>round_pos x - x\<bar> \<le> x / 2 ^ 53"
proof (induction x rule: round_pos.induct)
  case (1 x)
  show ?case
  proof (cases "x < 2 / 2 ^ 1022")
    case True
    have "(1::real) / 2 ^ 1075 = (1 / 2 ^ 1022) / 2 ^ 53" by simp
    also have "\<dots> \<le> x / 2 ^ 53" using "1.prems" by (intro divide_right_mono) simp_all
    finally show ?thesis using round_pos_error_small [OF True] by linarith
  next
    case False
    then have x: "2 / 2 ^ 1022 \<le> x" by simp
    then have "1 / 2 ^ 1022 \<le> x / 2" by simp
    with "1.IH" False have "\<bar>round_pos (x / 2) - x / 2\<bar> \<le> x / 2 / 2 ^ 53" by blast
    moreover have "\<bar>2 * round_pos (x / 2) - x\<bar> = 2 * \<bar>round_pos (x / 2) - x / 2\<bar>"
      by (simp add: abs_if)
    ultimately have "\<bar>2 * round_pos (x / 2) - x\<bar> \<le> x / 2 ^ 53" by linarith
    then show ?thesis by (simp only: round_pos_step [OF x])
  qed
qed


lemma halve_scaled:
  fixes x K M :: real
  shows "x / 2 * K / M = x * K / (2 * M)"
  by simp

lemma double_scaled:
  fixes a b K :: real
  shows "2 * (a * b / K) = a * (2 * b) / K"
  by simp

lemma round_pos_binade:
  "2 ^ n / 2 ^ 1022 \<le> x \<Longrightarrow> x < 2 * 2 ^ n / 2 ^ 1022 \<Longrightarrow>
     round_pos x = of_int (round_half_even (x * 2 ^ 1074 / 2 ^ n)) * 2 ^ n / 2 ^ 1074"
proof (induction n arbitrary: x)
  case 0
  then show ?case by (simp add: round_pos_base)
next
  case (Suc n)
  have "(1::real) \<le> 2 ^ n" by simp
  then have "(2::real) / 2 ^ 1022 \<le> 2 ^ Suc n / 2 ^ 1022"
    by (simp add: divide_right_mono)
  with Suc.prems(1) have x: "2 / 2 ^ 1022 \<le> x" by linarith
  have lo: "2 ^ n / 2 ^ 1022 \<le> x / 2" using Suc.prems(1) by (simp add: field_simps)
  have hi: "x / 2 < 2 * 2 ^ n / 2 ^ 1022" using Suc.prems(2) by (simp add: field_simps)
  have arg: "x / 2 * 2 ^ 1074 / 2 ^ n = x * 2 ^ 1074 / 2 ^ Suc n"
    by (simp only: power_Suc)
  have "round_pos x = 2 * round_pos (x / 2)" by (rule round_pos_step [OF x])
  also have "\<dots> =
      2 * (of_int (round_half_even (x / 2 * 2 ^ 1074 / 2 ^ n)) * 2 ^ n / 2 ^ 1074)"
    by (simp only: Suc.IH [OF lo hi])
  also have "\<dots> = of_int (round_half_even (x / 2 * 2 ^ 1074 / 2 ^ n)) * (2 * 2 ^ n) / 2 ^ 1074"
    by (rule double_scaled)
  finally show ?case by (simp only: arg power_Suc)
qed

lemma round_pos_fixed_threshold: "round_pos (2 ^ 1024) = 2 ^ 1024"
proof -
  have "round_pos (2 ^ 1024) =
      of_int (round_half_even (2 ^ 1024 * 2 ^ 1074 / 2 ^ 2046)) * 2 ^ 2046 / 2 ^ 1074"
    by (rule round_pos_binade) simp_all
  also have "(2::real) ^ 1024 * 2 ^ 1074 / 2 ^ 2046 = of_int (2 ^ 52)" by simp
  finally show ?thesis by (simp only: rhe_of_int) simp
qed

lemma round_pos_unit: "round_pos (1 / 2 ^ 1074) = 1 / 2 ^ 1074"
proof -
  have "round_pos (1 / 2 ^ 1074) = of_int (round_half_even (1 / 2 ^ 1074 * 2 ^ 1074)) / 2 ^ 1074"
    by (rule round_pos_base) simp
  also have "(1::real) / 2 ^ 1074 * 2 ^ 1074 = 1" by simp
  also have "round_half_even 1 = 1" by (simp add: round_half_even_def)
  finally show ?thesis by simp
qed

lemma round_double_zero [simp]: "round_double 0 = Fin 0"
  by (simp add: round_double_def)

lemma round_double_not_NaN [simp]: "round_double x \<noteq> NaN"
  by (simp add: round_double_def Let_def)

lemma round_double_overflow: "2 ^ 1024 \<le> x \<Longrightarrow> round_double x = PInf"
proof -
  assume x: "2 ^ 1024 \<le> x"
  then have "round_pos (2 ^ 1024) \<le> round_pos \<bar>x\<bar>" by (intro round_pos_mono) simp
  then have "2 ^ 1024 \<le> round_pos \<bar>x\<bar>" by (simp only: round_pos_fixed_threshold)
  moreover have "0 < x" using x by (smt (verit) zero_less_power)
  ultimately show ?thesis by (simp add: round_double_def)
qed

lemma num_le_PInf: "v \<noteq> NaN \<Longrightarrow> num_le v PInf"
  by (cases v) simp_all

lemma num_le_NInf: "v \<noteq> NaN \<Longrightarrow> num_le NInf v"
  by (cases v) simp_all

lemma num_le_not_NaN: "num_le a b \<Longrightarrow> a \<noteq> NaN \<and> b \<noteq> NaN"
  by (cases a; cases b) simp_all

lemma round_double_nonneg_cases:
  assumes "0 \<le> x"
  shows "round_double x = PInf \<and> 2 ^ 1024 \<le> round_pos x
       \<or> round_double x = Fin (round_pos x) \<and> round_pos x < 2 ^ 1024"
  using assms by (auto simp: round_double_def Let_def)

lemma round_double_neg_cases:
  assumes "x < 0"
  shows "round_double x = NInf \<and> 2 ^ 1024 \<le> round_pos (- x)
       \<or> round_double x = Fin (- round_pos (- x)) \<and> round_pos (- x) < 2 ^ 1024"
  using assms by (auto simp: round_double_def Let_def)

lemma round_double_mono:
  assumes "x \<le> y"
  shows "num_le (round_double x) (round_double y)"
proof (cases "0 \<le> x")
  case True
  with assms have y: "0 \<le> y" by simp
  have m: "round_pos x \<le> round_pos y" by (rule round_pos_mono [OF assms])
  from round_double_nonneg_cases [OF True] round_double_nonneg_cases [OF y] m
  show ?thesis by auto
next
  case False
  then have x: "x < 0" by simp
  show ?thesis
  proof (cases "0 \<le> y")
    case True
    have "0 \<le> round_pos y" by (rule round_pos_nonneg [OF True])
    moreover have "0 \<le> round_pos (- x)" using x by (intro round_pos_nonneg) simp
    ultimately show ?thesis
      using round_double_neg_cases [OF x] round_double_nonneg_cases [OF True] by auto
  next
    case False
    then have y: "y < 0" by simp
    have m: "round_pos (- y) \<le> round_pos (- x)" using assms by (intro round_pos_mono) simp
    from round_double_neg_cases [OF x] round_double_neg_cases [OF y] m
    show ?thesis by auto
  qed
qed

lemma rounded_mono: "num_le a b \<Longrightarrow> num_le (rounded a) (rounded b)"
  by (cases a; cases b) (simp_all add: round_double_mono num_le_PInf num_le_NInf)

lemma is_double_grid:
  assumes "is_double x"
  shows "\<exists>k::int. x = of_int k / 2 ^ 1074"
proof -
  obtain k :: int where k: "round_pos \<bar>x\<bar> = of_int k / 2 ^ 1074"
    using round_pos_grid by blast
  from assms have "x = (if x < 0 then - round_pos \<bar>x\<bar> else round_pos \<bar>x\<bar>)"
    by (auto simp: is_double_def round_double_def Let_def split: if_splits)
  then have "x = of_int k / 2 ^ 1074 \<or> x = of_int (- k) / 2 ^ 1074"
    by (simp only: k split: if_splits) (simp_all)
  then show ?thesis by blast
qed

lemma double_gap:
  assumes "is_double a" and "is_double b" and "a < b"
  shows "1 / 2 ^ 1074 \<le> b - a"
proof -
  from is_double_grid [OF assms(1)] obtain i :: int where a: "a = of_int i / 2 ^ 1074" by blast
  from is_double_grid [OF assms(2)] obtain j :: int where b: "b = of_int j / 2 ^ 1074" by blast
  from assms(3) have "(of_int i :: real) < of_int j"
    unfolding a b by (simp add: divide_strict_right_mono_neg field_simps)
  then have "i + 1 \<le> j" by simp
  then have "(of_int i :: real) + 1 \<le> of_int j" by (metis of_int_1 of_int_add of_int_le_iff)
  then have "(of_int j - of_int i :: real) / 2 ^ 1074 \<ge> 1 / 2 ^ 1074"
    by (intro divide_right_mono) simp_all
  then show ?thesis unfolding a b by (simp only: diff_divide_distrib)
qed

lemma round_double_positive:
  assumes "1 / 2 ^ 1074 \<le> x"
  shows "round_double x = PInf \<or> (\<exists>r. round_double x = Fin r \<and> 0 < r)"
proof -
  have "round_pos (1 / 2 ^ 1074) \<le> round_pos x" by (rule round_pos_mono [OF assms])
  then have "1 / 2 ^ 1074 \<le> round_pos x" by (simp only: round_pos_unit)
  moreover have "(0::real) < 1 / 2 ^ 1074" by simp
  ultimately have pos: "0 < round_pos x" by linarith
  have "0 \<le> x" using assms \<open>(0::real) < 1 / 2 ^ 1074\<close> by linarith
  from round_double_nonneg_cases [OF this] pos show ?thesis by auto
qed

end
